theory Spec2Isabelle
  imports Main "HOL-Library.List_Lexorder"
begin

section \<open>The quote store of mcp-theanswer\<close>

text \<open>
  The data access layer of the repository (\<^verbatim>\<open>database/operations.py\<close>,
  \<^verbatim>\<open>database/schema.py\<close>, \<^verbatim>\<open>database/models.py\<close>, \<^verbatim>\<open>seed_data.py\<close>) is a
  set of Python functions, each of which opens an SQLite connection with foreign keys
  enabled, runs a few SQL statements, commits and closes.

  The database file is modelled as a record of its three tables, each a list of rows in
  rowid order, and the two \<^verbatim>\<open>AUTOINCREMENT\<close> counters. Every operation takes the
  database and returns its result together with the database afterwards. A Python
  exception is a value \<open>Inl e\<close>: the connection is closed without \<^verbatim>\<open>commit\<close>, so the
  pending transaction is rolled back and the database is the one the call started from.
  Failures of the storage itself (a file that cannot be opened, a full disk, a string
  beyond SQLite's length limit, \<^verbatim>\<open>AUTOINCREMENT\<close> ids used up) are not modelled.

  A Python string is the list of its Unicode code points; SQLite compares \<^verbatim>\<open>TEXT\<close>
  values byte by byte in UTF-8, which is the lexicographic order of the code points.
\<close>

type_synonym str = "nat list"

definition lit :: "string \<Rightarrow> str" where
  \<comment> \<open>an ASCII literal of the source\<close>
  "lit s = map of_char s"

subsection \<open>Exceptions\<close>

datatype error =
    InvalidInputError string
  | IntegrityError string
  | TypeError string
  | OverflowError string
  | UnicodeEncodeError string

subsection \<open>Python string helpers\<close>

definition isspace :: "nat \<Rightarrow> bool" where
  \<comment> \<open>the code points \<^verbatim>\<open>str.strip()\<close> removes: U+0009..000D, U+001C..0020, U+0085, U+00A0,
      U+1680, U+2000..200A, U+2028, U+2029, U+202F, U+205F, U+3000\<close>
  "isspace n \<longleftrightarrow>
     (9 \<le> n \<and> n \<le> 13) \<or> (28 \<le> n \<and> n \<le> 32) \<or> n = 133 \<or> n = 160 \<or> n = 5760 \<or>
     (8192 \<le> n \<and> n \<le> 8202) \<or> n = 8232 \<or> n = 8233 \<or> n = 8239 \<or> n = 8287 \<or> n = 12288"

definition strip :: "str \<Rightarrow> str" where
  \<comment> \<open>\<^verbatim>\<open>str.strip()\<close>: drop leading and trailing whitespace.\<close>
  "strip s = rev (dropWhile isspace (rev (dropWhile isspace s)))"

definition blank :: "str \<Rightarrow> bool" where
  \<comment> \<open>\<^verbatim>\<open>not s or not s.strip()\<close>\<close>
  "blank s \<longleftrightarrow> s = [] \<or> strip s = []"

subsection \<open>Binding the parameters of a statement\<close>

text \<open>
  \<^verbatim>\<open>conn.execute(sql, params)\<close> of the module \<^verbatim>\<open>sqlite3\<close> converts the parameters, in
  order, to SQLite values before the statement runs. \<^verbatim>\<open>None\<close> becomes \<^verbatim>\<open>NULL\<close>. An
  \<^verbatim>\<open>int\<close> must fit the signed 64-bit \<^verbatim>\<open>INTEGER\<close> of SQLite, or the call raises
  \<^verbatim>\<open>OverflowError\<close>. A \<^verbatim>\<open>str\<close> is encoded in UTF-8, which cannot be done for a
  surrogate code point (U+D800..DFFF), and then the call raises \<^verbatim>\<open>UnicodeEncodeError\<close>.
  The functions that write to the database (\<^verbatim>\<open>add_quote\<close>, \<^verbatim>\<open>update_quote\<close>,
  \<^verbatim>\<open>delete_quote\<close>, \<^verbatim>\<open>add_tag_to_quote\<close>) carry these errors. The functions that
  only read are modelled for parameters that can be bound: an id within the range for
  \<^verbatim>\<open>get_quote_by_id\<close>, strings without surrogates for \<^verbatim>\<open>search_quotes\<close>.
\<close>

datatype param = PNull | PInt int | PStr str

definition sqlite_int :: "int \<Rightarrow> bool" where
  \<comment> \<open>the range of SQLite's \<^verbatim>\<open>INTEGER\<close>, from \<open>- 2 ^ 63\<close> to \<open>2 ^ 63 - 1\<close>\<close>
  "sqlite_int n \<longleftrightarrow> - 9223372036854775808 \<le> n \<and> n \<le> 9223372036854775807"

definition encodable :: "str \<Rightarrow> bool" where
  \<comment> \<open>no code point is a surrogate (55296 is U+D800, 57343 is U+DFFF)\<close>
  "encodable s = list_all (\<lambda>n. n < 55296 \<or> 57343 < n) s"

fun bind_param :: "param \<Rightarrow> error option" where
  "bind_param PNull = None"
| "bind_param (PInt n) =
     (if sqlite_int n then None
      else Some (OverflowError ''Python int too large to convert to SQLite INTEGER''))"
| "bind_param (PStr s) =
     (if encodable s then None
      else Some (UnicodeEncodeError ''surrogates not allowed''))"

fun bind_parameters :: "param list \<Rightarrow> error option" where
  \<comment> \<open>the first error among the parameters, \<open>None\<close> when all of them can be bound\<close>
  "bind_parameters [] = None"
| "bind_parameters (p # ps) =
     (case bind_param p of Some e \<Rightarrow> Some e | None \<Rightarrow> bind_parameters ps)"

definition opt_str :: "str option \<Rightarrow> param" where
  "opt_str v = (case v of None \<Rightarrow> PNull | Some s \<Rightarrow> PStr s)"

definition opt_int :: "int option \<Rightarrow> param" where
  "opt_int v = (case v of None \<Rightarrow> PNull | Some n \<Rightarrow> PInt n)"

subsection \<open>Tables (\<^verbatim>\<open>schema.py\<close>)\<close>

text \<open>
  \<^verbatim>\<open>quotes(id INTEGER PRIMARY KEY AUTOINCREMENT, text TEXT NOT NULL, author TEXT NOT NULL,
  source TEXT, year INTEGER, created_at TIMESTAMP DEFAULT CURRENT_TIMESTAMP)\<close>. No statement
  of the program writes \<^verbatim>\<open>created_at\<close>, so the column always holds the text of the
  default.
\<close>

record quote_row =
  r_id :: int
  r_text :: str
  r_author :: str
  r_source :: "str option"
  r_year :: "int option"
  r_created_at :: str

text \<open>\<^verbatim>\<open>tags(id INTEGER PRIMARY KEY AUTOINCREMENT, name TEXT UNIQUE NOT NULL)\<close>\<close>

record tag_row =
  t_id :: int
  t_name :: str

text \<open>
  \<^verbatim>\<open>quote_tags(quote_id, tag_id, PRIMARY KEY (quote_id, tag_id), FOREIGN KEY ... ON DELETE
  CASCADE)\<close>: a row is the pair \<open>(quote_id, tag_id)\<close>.
\<close>

record db =
  quotes :: "quote_row list"
  tags :: "tag_row list"
  quote_tags :: "(int \<times> int) list"
  quotes_seq :: int
  tags_seq :: int

definition empty_db :: db where
  \<comment> \<open>the database after \<^verbatim>\<open>init_database\<close> on a fresh file\<close>
  "empty_db = \<lparr>quotes = [], tags = [], quote_tags = [], quotes_seq = 0, tags_seq = 0\<rparr>"

text \<open>
  The constraints the schema makes SQLite keep: primary keys and the unique tag name,
  both foreign keys of \<^verbatim>\<open>quote_tags\<close>, and \<^verbatim>\<open>AUTOINCREMENT\<close> counters that are never
  below an id in use.
\<close>

definition wf_db :: "db \<Rightarrow> bool" where
  "wf_db d \<longleftrightarrow>
     distinct (map r_id (quotes d)) \<and>
     distinct (map t_id (tags d)) \<and>
     distinct (map t_name (tags d)) \<and>
     distinct (quote_tags d) \<and>
     (\<forall>qt \<in> set (quote_tags d).
        fst qt \<in> set (map r_id (quotes d)) \<and> snd qt \<in> set (map t_id (tags d))) \<and>
     (\<forall>r \<in> set (quotes d). r_id r \<le> quotes_seq d) \<and>
     (\<forall>t \<in> set (tags d). t_id t \<le> tags_seq d)"

text \<open>
  The clock the program reads: SQLite's \<^verbatim>\<open>CURRENT_TIMESTAMP\<close> when a quote row is
  inserted, and \<^verbatim>\<open>datetime.now().isoformat()\<close> in \<^verbatim>\<open>Quote.from_row\<close>.
\<close>

record clock =
  current_timestamp :: str
  now_isoformat :: str

subsection \<open>The \<^verbatim>\<open>Quote\<close> dataclass (\<^verbatim>\<open>models.py\<close>)\<close>

record Quote =
  q_id :: int
  q_text :: str
  q_author :: str
  q_source :: "str option"
  q_year :: "int option"
  q_created_at :: str
  q_tags :: "str list"

definition from_row :: "clock \<Rightarrow> quote_row \<Rightarrow> str list \<Rightarrow> Quote" where
  \<comment> \<open>\<^verbatim>\<open>created_at=row[5] if row[5] else datetime.now().isoformat(), tags=tags or []\<close>\<close>
  "from_row c row tgs =
     \<lparr>q_id = r_id row, q_text = r_text row, q_author = r_author row,
      q_source = r_source row, q_year = r_year row,
      q_created_at = (if r_created_at row \<noteq> [] then r_created_at row else now_isoformat c),
      q_tags = tgs\<rparr>"

subsection \<open>Helpers of \<^verbatim>\<open>operations.py\<close>\<close>

definition get_or_create_tag :: "db \<Rightarrow> str \<Rightarrow> error + (int \<times> db)" where
  \<comment> \<open>\<^verbatim>\<open>SELECT id FROM tags WHERE name = ?\<close>, else \<^verbatim>\<open>INSERT INTO tags (name)\<close> and
      \<^verbatim>\<open>lastrowid\<close>; the name is bound by the \<^verbatim>\<open>SELECT\<close> first\<close>
  "get_or_create_tag d tag_name =
     (case bind_parameters [PStr tag_name] of
        Some e \<Rightarrow> Inl e
      | None \<Rightarrow>
          (case filter (\<lambda>t. t_name t = tag_name) (tags d) of
             row # _ \<Rightarrow> Inr (t_id row, d)
           | [] \<Rightarrow>
               (let new_id = tags_seq d + 1
                in Inr (new_id,
                        d\<lparr>tags := tags d @ [\<lparr>t_id = new_id, t_name = tag_name\<rparr>],
                          tags_seq := new_id\<rparr>))))"

definition get_tags_for_quote :: "db \<Rightarrow> int \<Rightarrow> str list" where
  \<comment> \<open>\<^verbatim>\<open>SELECT t.name FROM tags t JOIN quote_tags qt ON t.id = qt.tag_id
      WHERE qt.quote_id = ? ORDER BY t.name\<close>\<close>
  "get_tags_for_quote d quote_id =
     sort [t_name t. t \<leftarrow> tags d, qt \<leftarrow> quote_tags d, t_id t = snd qt, fst qt = quote_id]"

definition insert_quote_tag :: "db \<Rightarrow> int \<Rightarrow> int \<Rightarrow> error + db" where
  \<comment> \<open>\<^verbatim>\<open>INSERT INTO quote_tags (quote_id, tag_id) VALUES (?, ?)\<close> under the primary key
      and, with \<^verbatim>\<open>PRAGMA foreign_keys = ON\<close>, the two foreign keys. Where the program
      runs it, the quote id is a \<^verbatim>\<open>lastrowid\<close> or has been bound by a statement before,
      and the tag id has been read from the table \<^verbatim>\<open>tags\<close>.\<close>
  "insert_quote_tag d quote_id tag_id =
     (if (quote_id, tag_id) \<in> set (quote_tags d)
      then Inl (IntegrityError ''UNIQUE constraint failed: quote_tags.quote_id, quote_tags.tag_id'')
      else if quote_id \<notin> set (map r_id (quotes d)) \<or> tag_id \<notin> set (map t_id (tags d))
      then Inl (IntegrityError ''FOREIGN KEY constraint failed'')
      else Inr (d\<lparr>quote_tags := quote_tags d @ [(quote_id, tag_id)]\<rparr>))"

subsection \<open>\<^verbatim>\<open>add_quote\<close>\<close>

fun add_tags :: "db \<Rightarrow> int \<Rightarrow> str list \<Rightarrow> str list \<Rightarrow> error + (db \<times> str list)" where
  \<comment> \<open>the loop \<^verbatim>\<open>for tag_name in tags\<close> of \<^verbatim>\<open>add_quote\<close>, with the list \<^verbatim>\<open>tag_names\<close>
      it appends to\<close>
  "add_tags d quote_id [] tag_names = Inr (d, tag_names)"
| "add_tags d quote_id (tag_name # rest) tag_names =
     (if \<not> blank tag_name then
        (case get_or_create_tag d (strip tag_name) of
           Inl e \<Rightarrow> Inl e
         | Inr (tag_id, d1) \<Rightarrow>
             (case insert_quote_tag d1 quote_id tag_id of
                Inl e \<Rightarrow> Inl e
              | Inr d2 \<Rightarrow> add_tags d2 quote_id rest (tag_names @ [strip tag_name])))
      else add_tags d quote_id rest tag_names)"

definition add_quote ::
  "clock \<Rightarrow> db \<Rightarrow> str \<Rightarrow> str \<Rightarrow> str option \<Rightarrow> int option \<Rightarrow> str list option
     \<Rightarrow> error + (Quote \<times> db)" where
  \<comment> \<open>the \<^verbatim>\<open>INSERT INTO quotes\<close> binds \<^verbatim>\<open>(text.strip(), author.strip(), source, year)\<close>\<close>
  "add_quote c d text author source year tgs =
     (if blank text then Inl (InvalidInputError ''Quote text cannot be empty'')
      else if blank author then Inl (InvalidInputError ''Author name cannot be empty'')
      else
        (case bind_parameters
                [PStr (strip text), PStr (strip author), opt_str source, opt_int year] of
           Some e \<Rightarrow> Inl e
         | None \<Rightarrow>
            (let quote_id = quotes_seq d + 1;
                 d1 = d\<lparr>quotes := quotes d @
                           [\<lparr>r_id = quote_id, r_text = strip text, r_author = strip author,
                             r_source = source, r_year = year,
                             r_created_at = current_timestamp c\<rparr>],
                         quotes_seq := quote_id\<rparr>
             in case (case tgs of
                        None \<Rightarrow> Inr (d1, [])
                      | Some ts \<Rightarrow>
                          if ts = [] then Inr (d1, []) else add_tags d1 quote_id ts []) of
                  Inl e \<Rightarrow> Inl e
                | Inr (d2, tag_names) \<Rightarrow>
                    (case filter (\<lambda>r. r_id r = quote_id) (quotes d2) of
                       [] \<Rightarrow> Inl (TypeError ''NoneType object is not subscriptable'')
                     | row # _ \<Rightarrow> Inr (from_row c row tag_names, d2)))))"

subsection \<open>Reading quotes\<close>

definition get_quote_by_id :: "clock \<Rightarrow> db \<Rightarrow> int \<Rightarrow> Quote option" where
  "get_quote_by_id c d quote_id =
     (case filter (\<lambda>r. r_id r = quote_id) (quotes d) of
        [] \<Rightarrow> None
      | row # _ \<Rightarrow> Some (from_row c row (get_tags_for_quote d quote_id)))"

definition order_by_created_at_desc :: "quote_row list \<Rightarrow> quote_row list" where
  \<comment> \<open>\<^verbatim>\<open>ORDER BY created_at DESC\<close>. SQL leaves the order of rows with equal keys open;
      here they keep the order in which they reach the sort.\<close>
  "order_by_created_at_desc rows = rev (sort_key r_created_at (rev rows))"

definition get_all_quotes :: "clock \<Rightarrow> db \<Rightarrow> Quote list" where
  \<comment> \<open>\<^verbatim>\<open>SELECT id, text, author, source, year, created_at FROM quotes
      ORDER BY created_at DESC\<close>\<close>
  "get_all_quotes c d =
     map (\<lambda>row. from_row c row (get_tags_for_quote d (r_id row)))
       (order_by_created_at_desc (quotes d))"

subsection \<open>\<^verbatim>\<open>search_quotes\<close>\<close>

definition sql_lower :: "str \<Rightarrow> str" where
  \<comment> \<open>SQLite's \<^verbatim>\<open>LOWER\<close> folds the ASCII letters only.\<close>
  "sql_lower s = map (\<lambda>n. if 65 \<le> n \<and> n \<le> 90 then n + 32 else n) s"

fun like :: "str \<Rightarrow> str \<Rightarrow> bool" where
  \<comment> \<open>\<^verbatim>\<open>text LIKE pattern\<close>, pattern first: \<^verbatim>\<open>%\<close> (37) is any run of characters,
      \<^verbatim>\<open>_\<close> (95) any one character, a letter matches in either ASCII case.\<close>
  "like [] s = (s = [])"
| "like (p # ps) [] = (p = 37 \<and> like ps [])"
| "like (p # ps) (x # xs) =
     (if p = 37 then like ps (x # xs) \<or> like (p # ps) xs
      else (p = 95 \<or> sql_lower [p] = sql_lower [x]) \<and> like ps xs)"

definition text_ok :: "str option \<Rightarrow> quote_row \<Rightarrow> bool" where
  \<comment> \<open>\<^verbatim>\<open>if query:\<close> the clause \<^verbatim>\<open>(q.text LIKE ? OR q.author LIKE ?)\<close> with the
      pattern \<^verbatim>\<open>%query%\<close>\<close>
  "text_ok query q =
     (case query of
        None \<Rightarrow> True
      | Some s \<Rightarrow> s = [] \<or> like ([37] @ s @ [37]) (r_text q)
                         \<or> like ([37] @ s @ [37]) (r_author q))"

definition author_ok :: "str option \<Rightarrow> quote_row \<Rightarrow> bool" where
  \<comment> \<open>\<^verbatim>\<open>if author:\<close> the clause \<^verbatim>\<open>LOWER(q.author) = LOWER(?)\<close>\<close>
  "author_ok author q =
     (case author of
        None \<Rightarrow> True
      | Some a \<Rightarrow> a = [] \<or> sql_lower (r_author q) = sql_lower a)"

definition quotes_join_tags :: "db \<Rightarrow> (quote_row \<times> tag_row) list" where
  \<comment> \<open>\<^verbatim>\<open>quotes q JOIN quote_tags qt ON q.id = qt.quote_id JOIN tags t ON qt.tag_id = t.id\<close>\<close>
  "quotes_join_tags d =
     [(q, t). q \<leftarrow> quotes d, qt \<leftarrow> quote_tags d, r_id q = fst qt, t \<leftarrow> tags d, snd qt = t_id t]"

definition group_having :: "nat \<Rightarrow> (quote_row \<times> tag_row) list \<Rightarrow> quote_row list" where
  \<comment> \<open>\<^verbatim>\<open>GROUP BY q.id HAVING COUNT(DISTINCT t.id) = ?\<close>, selecting the columns of \<^verbatim>\<open>q\<close>
      from a row of each group that is kept\<close>
  "group_having n matched =
     concat (map (\<lambda>g. case g of [] \<Rightarrow> [] | (q, t) # _ \<Rightarrow> [q])
       (filter (\<lambda>g. length (remdups (map (\<lambda>(q, t). t_id t) g)) = n)
          (map (\<lambda>k. filter (\<lambda>(q, t). r_id q = k) matched)
             (remdups (map (\<lambda>(q, t). r_id q) matched)))))"

definition search_quotes ::
  "clock \<Rightarrow> db \<Rightarrow> str option \<Rightarrow> str option \<Rightarrow> str list option \<Rightarrow> Quote list" where
  \<comment> \<open>\<^verbatim>\<open>SELECT DISTINCT q.* FROM quotes q [joins] [WHERE ...] [GROUP BY ... HAVING ...]
      ORDER BY q.created_at DESC\<close>; the joins, the clause \<^verbatim>\<open>t.name IN (...)\<close> and the
      grouping are there \<^verbatim>\<open>if tags:\<close>, and the count compared is \<^verbatim>\<open>len(tags)\<close>\<close>
  "search_quotes c d query author tgs =
     (let the_tags = (case tgs of None \<Rightarrow> [] | Some ts \<Rightarrow> ts);
          rows =
            (if the_tags \<noteq> [] then
               group_having (length the_tags)
                 (filter (\<lambda>(q, t). t_name t \<in> set the_tags \<and> text_ok query q \<and> author_ok author q)
                    (quotes_join_tags d))
             else filter (\<lambda>q. text_ok query q \<and> author_ok author q) (quotes d))
      in map (\<lambda>row. from_row c row (get_tags_for_quote d (r_id row)))
           (order_by_created_at_desc (remdups rows)))"

subsection \<open>\<^verbatim>\<open>update_quote\<close>\<close>

text \<open>
  \<^verbatim>\<open>**kwargs\<close>: a field is absent (\<open>None\<close>) or present with its value, which may be
  Python's \<^verbatim>\<open>None\<close>.
\<close>

record update_kwargs =
  kw_text :: "str option option"
  kw_author :: "str option option"
  kw_source :: "str option option"
  kw_year :: "int option option"
  kw_tags :: "str list option option"

definition no_fields :: update_kwargs where
  "no_fields = \<lparr>kw_text = None, kw_author = None, kw_source = None, kw_year = None,
                 kw_tags = None\<rparr>"

definition invalid_field :: "str option option \<Rightarrow> bool" where
  \<comment> \<open>\<^verbatim>\<open>"text" in kwargs and (not kwargs["text"] or not kwargs["text"].strip())\<close>\<close>
  "invalid_field f =
     (case f of None \<Rightarrow> False | Some None \<Rightarrow> True | Some (Some s) \<Rightarrow> blank s)"

definition set_fields :: "update_kwargs \<Rightarrow> quote_row \<Rightarrow> quote_row" where
  \<comment> \<open>the \<^verbatim>\<open>SET\<close> list built from the fields present; text and author are stripped
      (the validation before has turned away \<^verbatim>\<open>None\<close> and blank values for them)\<close>
  "set_fields kw r =
     r\<lparr>r_text := (case kw_text kw of Some (Some s) \<Rightarrow> strip s | _ \<Rightarrow> r_text r),
       r_author := (case kw_author kw of Some (Some s) \<Rightarrow> strip s | _ \<Rightarrow> r_author r),
       r_source := (case kw_source kw of Some v \<Rightarrow> v | None \<Rightarrow> r_source r),
       r_year := (case kw_year kw of Some v \<Rightarrow> v | None \<Rightarrow> r_year r)\<rparr>"

fun update_tags :: "db \<Rightarrow> int \<Rightarrow> str list \<Rightarrow> error + db" where
  \<comment> \<open>the loop \<^verbatim>\<open>for tag_name in kwargs["tags"]\<close>\<close>
  "update_tags d quote_id [] = Inr d"
| "update_tags d quote_id (tag_name # rest) =
     (if \<not> blank tag_name then
        (case get_or_create_tag d (strip tag_name) of
           Inl e \<Rightarrow> Inl e
         | Inr (tag_id, d1) \<Rightarrow>
             (case insert_quote_tag d1 quote_id tag_id of
                Inl e \<Rightarrow> Inl e
              | Inr d2 \<Rightarrow> update_tags d2 quote_id rest))
      else update_tags d quote_id rest)"

definition update_params :: "update_kwargs \<Rightarrow> param list" where
  \<comment> \<open>the list \<^verbatim>\<open>params\<close> after the loop over \<^verbatim>\<open>["text", "author", "source", "year"]\<close>:
      the value of each field present, text and author stripped\<close>
  "update_params kw =
     (case kw_text kw of None \<Rightarrow> [] | Some v \<Rightarrow> [opt_str (map_option strip v)]) @
     (case kw_author kw of None \<Rightarrow> [] | Some v \<Rightarrow> [opt_str (map_option strip v)]) @
     (case kw_source kw of None \<Rightarrow> [] | Some v \<Rightarrow> [opt_str v]) @
     (case kw_year kw of None \<Rightarrow> [] | Some v \<Rightarrow> [opt_int v])"

definition update_quote :: "db \<Rightarrow> int \<Rightarrow> update_kwargs \<Rightarrow> error + (bool \<times> db)" where
  \<comment> \<open>the two checks; \<^verbatim>\<open>SELECT id FROM quotes WHERE id = ?\<close>; \<^verbatim>\<open>if update_fields:\<close> the
      \<^verbatim>\<open>UPDATE quotes SET ... WHERE id = ?\<close>; \<^verbatim>\<open>if "tags" in kwargs:\<close> the
      \<^verbatim>\<open>DELETE FROM quote_tags\<close> and the loop\<close>
  "update_quote d quote_id kw =
     (if invalid_field (kw_text kw) then Inl (InvalidInputError ''Quote text cannot be empty'')
      else if invalid_field (kw_author kw)
      then Inl (InvalidInputError ''Author name cannot be empty'')
      else
        (case bind_parameters [PInt quote_id] of
           Some e \<Rightarrow> Inl e
         | None \<Rightarrow>
            if filter (\<lambda>r. r_id r = quote_id) (quotes d) = [] then Inr (False, d)
            else
              (case (if update_params kw = [] then None
                     else bind_parameters (update_params kw @ [PInt quote_id])) of
                 Some e \<Rightarrow> Inl e
               | None \<Rightarrow>
                  (let d1 = d\<lparr>quotes := map (\<lambda>r. if r_id r = quote_id then set_fields kw r
                                                    else r) (quotes d)\<rparr>
                   in case kw_tags kw of
                        None \<Rightarrow> Inr (True, d1)
                      | Some v \<Rightarrow>
                          (let d2 = d1\<lparr>quote_tags :=
                                       filter (\<lambda>qt. fst qt \<noteq> quote_id) (quote_tags d1)\<rparr>
                           in case v of
                                None \<Rightarrow> Inr (True, d2)
                              | Some ts \<Rightarrow>
                                  if ts = [] then Inr (True, d2)
                                  else (case update_tags d2 quote_id ts of
                                          Inl e \<Rightarrow> Inl e
                                        | Inr d3 \<Rightarrow> Inr (True, d3)))))))"

subsection \<open>\<^verbatim>\<open>delete_quote\<close>, \<^verbatim>\<open>add_tag_to_quote\<close>, \<^verbatim>\<open>list_all_tags\<close>\<close>

definition delete_quote :: "db \<Rightarrow> int \<Rightarrow> error + (bool \<times> db)" where
  \<comment> \<open>\<^verbatim>\<open>DELETE FROM quotes WHERE id = ?\<close>; each row deleted takes its \<^verbatim>\<open>quote_tags\<close> rows
      with it (\<^verbatim>\<open>ON DELETE CASCADE\<close>); the result is \<^verbatim>\<open>cursor.rowcount > 0\<close>\<close>
  "delete_quote d quote_id =
     (case bind_parameters [PInt quote_id] of
        Some e \<Rightarrow> Inl e
      | None \<Rightarrow>
         (let rowcount = length (filter (\<lambda>r. r_id r = quote_id) (quotes d))
          in if rowcount > 0
             then Inr (True, d\<lparr>quotes := filter (\<lambda>r. r_id r \<noteq> quote_id) (quotes d),
                               quote_tags := filter (\<lambda>qt. fst qt \<noteq> quote_id) (quote_tags d)\<rparr>)
             else Inr (False, d)))"

definition add_tag_to_quote :: "db \<Rightarrow> int \<Rightarrow> str \<Rightarrow> error + (bool \<times> db)" where
  \<comment> \<open>the check of the tag; \<^verbatim>\<open>SELECT id FROM quotes WHERE id = ?\<close>;
      \<^verbatim>\<open>_get_or_create_tag\<close>; \<^verbatim>\<open>SELECT 1 FROM quote_tags WHERE quote_id = ? AND
      tag_id = ?\<close>; the \<^verbatim>\<open>INSERT\<close>\<close>
  "add_tag_to_quote d quote_id tag =
     (if blank tag then Inl (InvalidInputError ''Tag name cannot be empty'')
      else
        (case bind_parameters [PInt quote_id] of
           Some e \<Rightarrow> Inl e
         | None \<Rightarrow>
            if filter (\<lambda>r. r_id r = quote_id) (quotes d) = [] then Inr (False, d)
            else
              (case get_or_create_tag d (strip tag) of
                 Inl e \<Rightarrow> Inl e
               | Inr (tag_id, d1) \<Rightarrow>
                   if filter (\<lambda>qt. fst qt = quote_id \<and> snd qt = tag_id) (quote_tags d1) \<noteq> []
                   then Inr (True, d1)
                   else (case insert_quote_tag d1 quote_id tag_id of
                           Inl e \<Rightarrow> Inl e
                         | Inr d2 \<Rightarrow> Inr (True, d2)))))"

definition tags_left_join :: "db \<Rightarrow> (tag_row \<times> int option) list" where
  \<comment> \<open>\<^verbatim>\<open>tags t LEFT JOIN quote_tags qt ON t.id = qt.tag_id\<close>, with the column
      \<^verbatim>\<open>qt.quote_id\<close>: a tag without a match is joined to one row of NULLs\<close>
  "tags_left_join d =
     concat (map (\<lambda>t.
       if filter (\<lambda>qt. t_id t = snd qt) (quote_tags d) = [] then [(t, None)]
       else map (\<lambda>qt. (t, Some (fst qt))) (filter (\<lambda>qt. t_id t = snd qt) (quote_tags d)))
       (tags d))"

definition list_all_tags :: "db \<Rightarrow> (str \<times> int) list" where
  \<comment> \<open>\<^verbatim>\<open>SELECT t.name, COUNT(qt.quote_id) FROM tags t LEFT JOIN quote_tags qt
      ON t.id = qt.tag_id GROUP BY t.id, t.name ORDER BY t.name\<close>; \<^verbatim>\<open>COUNT\<close> does not
      count a NULL\<close>
  "list_all_tags d =
     sort_key fst
       (map (\<lambda>k. (snd k,
               int (length (filter (\<lambda>(t, q). (t_id t, t_name t) = k \<and> q \<noteq> None)
                              (tags_left_join d)))))
          (remdups (map (\<lambda>(t, q). (t_id t, t_name t)) (tags_left_join d))))"

subsection \<open>Seeding (\<^verbatim>\<open>seed_data.py\<close>)\<close>

record seed_quote =
  s_text :: str
  s_author :: str
  s_source :: "str option"
  s_year :: "int option"
  s_tags :: "str list option"

definition SEED_QUOTES :: "seed_quote list" where
  "SEED_QUOTES =
    [\<lparr>s_text = lit ''The answer to the great question of life, the universe and e''
        @ lit ''verything is forty-two.'',
      s_author = lit ''Douglas Adams'',
      s_source = Some (lit ''The Hitchhiker's Guide to the Galaxy''),
      s_year = Some 1979,
      s_tags = Some [lit ''philosophy'', lit ''humor'', lit ''existence'', lit ''famous'']\<rparr>,
     \<lparr>s_text = lit ''Don't Panic.'',
      s_author = lit ''Douglas Adams'',
      s_source = Some (lit ''The Hitchhiker's Guide to the Galaxy''),
      s_year = Some 1979,
      s_tags = Some [lit ''humor'', lit ''life'', lit ''wisdom'', lit ''famous'']\<rparr>,
     \<lparr>s_text = lit ''Time is an illusion. Lunchtime doubly so.'',
      s_author = lit ''Douglas Adams'',
      s_source = Some (lit ''The Hitchhiker's Guide to the Galaxy''),
      s_year = Some 1979,
      s_tags = Some [lit ''philosophy'', lit ''humor'', lit ''time'', lit ''absurdism'']\<rparr>,
     \<lparr>s_text = lit ''In the beginning the Universe was created. This has made a l''
        @ lit ''ot of people very angry and been widely regarded as a bad mo''
        @ lit ''ve.'',
      s_author = lit ''Douglas Adams'',
      s_source = Some (lit ''The Restaurant at the End of the Universe''),
      s_year = Some 1980,
      s_tags = Some [lit ''philosophy'', lit ''humor'', lit ''existence'', lit ''satire'']\<rparr>,
     \<lparr>s_text = lit ''I may not have gone where I intended to go, but I think I ha''
        @ lit ''ve ended up where I needed to be.'',
      s_author = lit ''Douglas Adams'',
      s_source = Some (lit ''The Long Dark Tea-Time of the Soul''),
      s_year = Some 1988,
      s_tags = Some [lit ''life'', lit ''wisdom'', lit ''philosophy'', lit ''journey'']\<rparr>,
     \<lparr>s_text = lit ''A learning experience is one of those things that says, 'You''
        @ lit '' know that thing you just did? Don't do that.''
        @ [39],
      s_author = lit ''Douglas Adams'',
      s_source = Some (lit ''The Salmon of Doubt''),
      s_year = Some 2002,
      s_tags = Some [lit ''wisdom'', lit ''humor'', lit ''life'', lit ''learning'']\<rparr>,
     \<lparr>s_text = lit ''I love deadlines. I love the whooshing noise they make as th''
        @ lit ''ey go by.'',
      s_author = lit ''Douglas Adams'',
      s_source = Some (lit ''The Salmon of Doubt''),
      s_year = Some 2002,
      s_tags = Some [lit ''humor'', lit ''life'', lit ''work'', lit ''procrastination'']\<rparr>,
     \<lparr>s_text = lit ''The fact that we live at the bottom of a deep gravity well, ''
        @ lit ''on the surface of a gas covered planet going around a nuclea''
        @ lit ''r fireball 90 million miles away and think this to be normal''
        @ lit '' is obviously some indication of how skewed our perspective ''
        @ lit ''tends to be.'',
      s_author = lit ''Douglas Adams'',
      s_source = Some (lit ''The Salmon of Doubt''),
      s_year = Some 2002,
      s_tags = Some [lit ''philosophy'', lit ''science'', lit ''perspective'', lit ''existence'']\<rparr>,
     \<lparr>s_text = lit ''For instance, on the planet Earth, man had always assumed th''
        @ lit ''at he was more intelligent than dolphins because he had achi''
        @ lit ''eved so much''
        @ [8212]
        @ lit ''the wheel, New York, wars and so on''
        @ [8212]
        @ lit ''whilst all the dolphins had ever done was muck about in the ''
        @ lit ''water having a good time. But conversely, the dolphins had a''
        @ lit ''lways believed that they were far more intelligent than man''
        @ [8212]
        @ lit ''for precisely the same reasons.'',
      s_author = lit ''Douglas Adams'',
      s_source = Some (lit ''The Hitchhiker's Guide to the Galaxy''),
      s_year = Some 1979,
      s_tags = Some [lit ''philosophy'', lit ''humor'', lit ''intelligence'', lit ''perspective'', lit ''satire'']\<rparr>,
     \<lparr>s_text = lit ''Let's think the unthinkable, let's do the undoable. Let us p''
        @ lit ''repare to grapple with the ineffable itself, and see if we m''
        @ lit ''ay not eff it after all.'',
      s_author = lit ''Douglas Adams'',
      s_source = Some (lit ''Dirk Gently's Holistic Detective Agency''),
      s_year = Some 1987,
      s_tags = Some [lit ''philosophy'', lit ''humor'', lit ''language'', lit ''challenge'']\<rparr>,
     \<lparr>s_text = lit ''There is a theory which states that if ever anyone discovers''
        @ lit '' exactly what the Universe is for and why it is here, it wil''
        @ lit ''l instantly disappear and be replaced by something even more''
        @ lit '' bizarre and inexplicable. There is another theory which sta''
        @ lit ''tes that this has already happened.'',
      s_author = lit ''Douglas Adams'',
      s_source = Some (lit ''The Restaurant at the End of the Universe''),
      s_year = Some 1980,
      s_tags = Some [lit ''philosophy'', lit ''humor'', lit ''existence'', lit ''mystery'', lit ''absurdism'']\<rparr>,
     \<lparr>s_text = lit ''We demand rigidly defined areas of doubt and uncertainty!'',
      s_author = lit ''Douglas Adams'',
      s_source = Some (lit ''The Hitchhiker's Guide to the Galaxy''),
      s_year = Some 1979,
      s_tags = Some [lit ''humor'', lit ''philosophy'', lit ''certainty'', lit ''absurdism'']\<rparr>,
     \<lparr>s_text = lit ''It is a mistake to think you can solve any major problems ju''
        @ lit ''st with potatoes.'',
      s_author = lit ''Douglas Adams'',
      s_source = Some (lit ''Life, the Universe and Everything''),
      s_year = Some 1982,
      s_tags = Some [lit ''humor'', lit ''wisdom'', lit ''absurdism'']\<rparr>,
     \<lparr>s_text = lit ''Anyone who is capable of getting themselves made President s''
        @ lit ''hould on no account be allowed to do the job.'',
      s_author = lit ''Douglas Adams'',
      s_source = Some (lit ''The Restaurant at the End of the Universe''),
      s_year = Some 1980,
      s_tags = Some [lit ''politics'', lit ''humor'', lit ''satire'', lit ''wisdom'']\<rparr>,
     \<lparr>s_text = lit ''Nothing travels faster than the speed of light, with the pos''
        @ lit ''sible exception of bad news, which obeys its own special law''
        @ lit ''s.'',
      s_author = lit ''Douglas Adams'',
      s_source = Some (lit ''Mostly Harmless''),
      s_year = Some 1992,
      s_tags = Some [lit ''humor'', lit ''science'', lit ''absurdism'']\<rparr>,
     \<lparr>s_text = lit ''The ships hung in the sky in much the same way that bricks d''
        @ lit ''on't.'',
      s_author = lit ''Douglas Adams'',
      s_source = Some (lit ''The Hitchhiker's Guide to the Galaxy''),
      s_year = Some 1979,
      s_tags = Some [lit ''humor'', lit ''science-fiction'', lit ''imagery'', lit ''absurdism'']\<rparr>,
     \<lparr>s_text = lit ''If there's anything more important than my ego around, I wan''
        @ lit ''t it caught and shot now.'',
      s_author = lit ''Douglas Adams'',
      s_source = Some (lit ''The Hitchhiker's Guide to the Galaxy''),
      s_year = Some 1979,
      s_tags = Some [lit ''humor'', lit ''ego'', lit ''satire'', lit ''character'']\<rparr>,
     \<lparr>s_text = lit ''Human beings, who are almost unique in having the ability to''
        @ lit '' learn from the experience of others, are also remarkable fo''
        @ lit ''r their apparent disinclination to do so.'',
      s_author = lit ''Douglas Adams'',
      s_source = Some (lit ''Last Chance to See''),
      s_year = Some 1990,
      s_tags = Some [lit ''wisdom'', lit ''philosophy'', lit ''human-nature'', lit ''learning'']\<rparr>,
     \<lparr>s_text = lit ''I'd far rather be happy than right any day.'',
      s_author = lit ''Douglas Adams'',
      s_source = Some (lit ''The Hitchhiker's Guide to the Galaxy''),
      s_year = Some 1979,
      s_tags = Some [lit ''wisdom'', lit ''life'', lit ''happiness'', lit ''philosophy'']\<rparr>,
     \<lparr>s_text = lit ''The mere thought hadn't even begun to speculate about the me''
        @ lit ''rest possibility of crossing my mind.'',
      s_author = lit ''Douglas Adams'',
      s_source = Some (lit ''The Hitchhiker's Guide to the Galaxy''),
      s_year = Some 1979,
      s_tags = Some [lit ''humor'', lit ''language'', lit ''absurdism'']\<rparr>]"

definition check_if_seeded :: "db \<Rightarrow> bool" where
  \<comment> \<open>\<^verbatim>\<open>SELECT COUNT(*) FROM quotes\<close> is positive (\<^verbatim>\<open>schema.py\<close>), on an initialised file\<close>
  "check_if_seeded d \<longleftrightarrow> length (quotes d) > 0"

fun seed_loop :: "(nat \<Rightarrow> clock) \<Rightarrow> db \<Rightarrow> seed_quote list \<Rightarrow> nat \<Rightarrow> int \<Rightarrow> int \<times> db" where
  \<comment> \<open>\<^verbatim>\<open>for quote_data in SEED_QUOTES\<close>: an exception of \<^verbatim>\<open>add_quote\<close> is printed and the
      loop goes on; \<open>clk i\<close> is the clock at the \<open>i\<close>-th call\<close>
  "seed_loop clk d [] i added_count = (added_count, d)"
| "seed_loop clk d (quote_data # rest) i added_count =
     (case add_quote (clk i) d (s_text quote_data) (s_author quote_data)
             (s_source quote_data) (s_year quote_data) (s_tags quote_data) of
        Inl e \<Rightarrow> seed_loop clk d rest (Suc i) added_count
      | Inr (q, d') \<Rightarrow> seed_loop clk d' rest (Suc i) (added_count + 1))"

definition seed_database :: "(nat \<Rightarrow> clock) \<Rightarrow> db \<Rightarrow> bool \<Rightarrow> (int \<times> int) \<times> db" where
  "seed_database clk d force =
     (if \<not> force \<and> check_if_seeded d
      then ((0, int (length (get_all_quotes (clk 0) d))), d)
      else (case seed_loop clk d SEED_QUOTES 0 0 of
              (added_count, d') \<Rightarrow>
                ((added_count,
                  int (length (get_all_quotes (clk (length SEED_QUOTES)) d'))), d')))"

subsection \<open>Python truth values, and sample states\<close>

definition falsy :: "'a list option \<Rightarrow> bool" where
  \<comment> \<open>\<^verbatim>\<open>not x\<close> for an optional string or list: \<^verbatim>\<open>None\<close> or empty\<close>
  "falsy x = (case x of None \<Rightarrow> True | Some v \<Rightarrow> v = [])"

definition surviving :: "str list \<Rightarrow> str list" where
  \<comment> \<open>the names a tag loop keeps: those not blank, stripped\<close>
  "surviving ns = map strip (filter (\<lambda>n. \<not> blank n) ns)"

definition linked_names :: "db \<Rightarrow> int \<Rightarrow> str list" where
  \<comment> \<open>the names of the tags a quote is associated with, in the order of the table \<^verbatim>\<open>tags\<close>\<close>
  "linked_names d quote_id =
     map t_name (filter (\<lambda>t. (quote_id, t_id t) \<in> set (quote_tags d)) (tags d))"

definition bindable :: "str \<Rightarrow> str \<Rightarrow> str option \<Rightarrow> int option \<Rightarrow> str list \<Rightarrow> bool" where
  \<comment> \<open>text, author, source, year and tag names that can all be bound\<close>
  "bindable text author source year ts \<longleftrightarrow>
     encodable text \<and> encodable author \<and>
     (case source of None \<Rightarrow> True | Some s \<Rightarrow> encodable s) \<and>
     (case year of None \<Rightarrow> True | Some y \<Rightarrow> sqlite_int y) \<and>
     list_all encodable ts"

definition valid_seed :: "seed_quote \<Rightarrow> bool" where
  \<comment> \<open>an entry that \<^verbatim>\<open>add_quote\<close> accepts: text and author not blank, no tag name twice,
      all values can be bound\<close>
  "valid_seed s \<longleftrightarrow>
     \<not> blank (s_text s) \<and> \<not> blank (s_author s) \<and>
     distinct (surviving (case s_tags s of None \<Rightarrow> [] | Some ts \<Rightarrow> ts)) \<and>
     bindable (s_text s) (s_author s) (s_source s) (s_year s)
       (case s_tags s of None \<Rightarrow> [] | Some ts \<Rightarrow> ts)"

definition seed_columns :: "seed_quote \<Rightarrow> str \<times> str \<times> str option \<times> int option" where
  \<comment> \<open>the text, author, source and year that \<^verbatim>\<open>add_quote\<close> stores for an entry\<close>
  "seed_columns s = (strip (s_text s), strip (s_author s), s_source s, s_year s)"

definition row_columns :: "quote_row \<Rightarrow> str \<times> str \<times> str option \<times> int option" where
  "row_columns r = (r_text r, r_author r, r_source r, r_year r)"

definition example_clock :: clock where
  "example_clock = \<lparr>current_timestamp = lit ''2024-01-01 00:00:00'',
                     now_isoformat = lit ''2024-01-01T00:00:00''\<rparr>"

definition example_db :: db where
  \<comment> \<open>the fresh database after \<^verbatim>\<open>add_quote(text="t", author="a", tags=["x"])\<close>\<close>
  "example_db =
     \<lparr>quotes = [\<lparr>r_id = 1, r_text = lit ''t'', r_author = lit ''a'', r_source = None,
                  r_year = None, r_created_at = lit ''2024-01-01 00:00:00''\<rparr>],
      tags = [\<lparr>t_id = 1, t_name = lit ''x''\<rparr>],
      quote_tags = [(1, 1)], quotes_seq = 1, tags_seq = 1\<rparr>"

section \<open>Properties\<close>

lemmas eval_defs =
  add_quote_def example_clock_def example_db_def empty_db_def lit_def blank_def strip_def
  isspace_def get_or_create_tag_def insert_quote_tag_def from_row_def get_quote_by_id_def
  get_tags_for_quote_def update_quote_def invalid_field_def no_fields_def set_fields_def
  search_quotes_def text_ok_def author_ok_def quotes_join_tags_def group_having_def
  order_by_created_at_desc_def add_tag_to_quote_def delete_quote_def
  list_all_tags_def tags_left_join_def get_all_quotes_def wf_db_def falsy_def surviving_def
  sqlite_int_def encodable_def opt_str_def opt_int_def update_params_def

lemma example_db_reached:
  "add_quote example_clock empty_db (lit ''t'') (lit ''a'') None None (Some [lit ''x''])
     = Inr (\<lparr>q_id = 1, q_text = lit ''t'', q_author = lit ''a'', q_source = None,
              q_year = None, q_created_at = lit ''2024-01-01 00:00:00'',
              q_tags = [lit ''x'']\<rparr>, example_db)"
  by (simp add: eval_defs)

lemma example_db_wf: "wf_db example_db"
  by (simp add: eval_defs)

subsection \<open>Blank strings\<close>

lemma strip_empty_iff: "strip s = [] \<longleftrightarrow> (\<forall>n \<in> set s. isspace n)"
proof
  assume "strip s = []"
  then have "dropWhile isspace (rev (dropWhile isspace s)) = []"
    by (simp add: strip_def)
  then have "\<forall>n \<in> set (dropWhile isspace s). isspace n"
    by (simp add: dropWhile_eq_Nil_conv)
  then have "dropWhile isspace s = []"
    by (metis hd_dropWhile list.set_sel(1))
  then show "\<forall>n \<in> set s. isspace n"
    by (simp add: dropWhile_eq_Nil_conv)
next
  assume "\<forall>n \<in> set s. isspace n"
  then show "strip s = []"
    by (auto simp: strip_def dest: set_dropWhileD)
qed

lemma blank_iff: "blank s \<longleftrightarrow> (\<forall>n \<in> set s. isspace n)"
  by (auto simp: blank_def strip_empty_iff)

subsection \<open>Values that can be bound\<close>

lemma isspace_encodable: "isspace n \<Longrightarrow> n < 55296"
  by (auto simp: isspace_def)

lemma encodable_dropWhile: "encodable (dropWhile isspace s) = encodable s"
proof -
  have "n < 55296" if "n \<in> set (takeWhile isspace s)" for n
    using set_takeWhileD [OF that] by (simp add: isspace_encodable)
  then have tw: "list_all (\<lambda>n. n < 55296 \<or> 57343 < n) (takeWhile isspace s)"
    by (simp add: list_all_iff)
  have "encodable (takeWhile isspace s @ dropWhile isspace s)
          = encodable (dropWhile isspace s)"
    unfolding encodable_def list_all_append using tw by simp
  then show ?thesis
    by simp
qed

lemma encodable_rev: "encodable (rev s) = encodable s"
  by (simp add: encodable_def list_all_iff)

lemma encodable_strip: "encodable (strip s) = encodable s"
  by (simp add: strip_def encodable_rev encodable_dropWhile)

lemma encodable_surviving: "list_all encodable ns \<Longrightarrow> list_all encodable (surviving ns)"
  by (auto simp: surviving_def list_all_iff encodable_strip)

lemma bind_parameters_append:
  "bind_parameters (ps @ qs)
     = (case bind_parameters ps of Some e \<Rightarrow> Some e | None \<Rightarrow> bind_parameters qs)"
  by (induction ps) (auto split: option.splits)

lemma bindable_bind:
  assumes "bindable text author source year ts"
  shows "bind_parameters [PStr (strip text), PStr (strip author), opt_str source, opt_int year]
           = None"
  using assms
  by (auto simp: bindable_def encodable_strip opt_str_def opt_int_def split: option.splits)

subsection \<open>Duplicate tag names\<close>

text \<open>
  C1 (\<^verbatim>\<open>search_quotes\<close>, tags filter). The docstring asks for the quotes that have all
  the tags given, and the query compares \<^verbatim>\<open>COUNT(DISTINCT t.id)\<close> with \<^verbatim>\<open>len(tags)\<close>, which
  counts a repeated name twice. On the database holding one quote tagged \<^verbatim>\<open>x\<close>, the
  search for \<^verbatim>\<open>["x"]\<close> returns the quote and the search for \<^verbatim>\<open>["x", "x"]\<close> returns
  nothing, although the quote carries every tag listed.
\<close>

theorem search_quotes_repeated_tag_excluded:
  "map q_id (search_quotes example_clock example_db None None (Some [lit ''x''])) = [1] \<and>
   set [lit ''x'', lit ''x''] \<subseteq> set (get_tags_for_quote example_db 1) \<and>
   search_quotes example_clock example_db None None (Some [lit ''x'', lit ''x'']) = []"
  by (simp add: eval_defs)

text \<open>
  C2 (\<^verbatim>\<open>add_quote\<close>, a tag name given twice). The second \<^verbatim>\<open>INSERT INTO quote_tags\<close> for
  the same pair breaks the primary key of \<^verbatim>\<open>quote_tags\<close>: the call ends in
  \<^verbatim>\<open>sqlite3.IntegrityError\<close> and no quote is created.
\<close>

theorem add_quote_repeated_tag_raises:
  "add_quote example_clock empty_db (lit ''t'') (lit ''a'') None None
     (Some [lit ''x'', lit ''x''])
   = Inl (IntegrityError ''UNIQUE constraint failed: quote_tags.quote_id, quote_tags.tag_id'')"
  by (simp add: eval_defs)

text \<open>
  C3 (\<^verbatim>\<open>add_quote\<close>, order of the returned tags). The quote returned carries the list
  \<^verbatim>\<open>tag_names\<close> in the order of the call: for the tags \<^verbatim>\<open>["b", "a"]\<close> it is
  \<^verbatim>\<open>["b", "a"]\<close>, which is not sorted, while \<^verbatim>\<open>get_quote_by_id\<close> of the same quote gives
  \<^verbatim>\<open>["a", "b"]\<close>.
\<close>

theorem add_quote_tags_in_call_order:
  "(case add_quote example_clock empty_db (lit ''t'') (lit ''a'') None None
           (Some [lit ''b'', lit ''a'']) of
      Inl e \<Rightarrow> False
    | Inr (q, d) \<Rightarrow>
        q_tags q = [lit ''b'', lit ''a''] \<and> \<not> sorted (q_tags q) \<and>
        map_option q_tags (get_quote_by_id example_clock d (q_id q))
          = Some [lit ''a'', lit ''b''])"
  by (simp add: eval_defs)

text \<open>
  C4 (\<^verbatim>\<open>update_quote\<close>, tags supplied). With a name given twice the loop inserts the
  same pair twice, as in \<^verbatim>\<open>add_quote\<close>: the call ends in \<^verbatim>\<open>sqlite3.IntegrityError\<close>
  instead of leaving the quote with the one tag \<^verbatim>\<open>z\<close>.
\<close>

theorem update_quote_repeated_tag_raises:
  "update_quote example_db 1 (no_fields\<lparr>kw_tags := Some (Some [lit ''z'', lit ''z''])\<rparr>)
   = Inl (IntegrityError ''UNIQUE constraint failed: quote_tags.quote_id, quote_tags.tag_id'')"
  by (simp add: eval_defs)

subsection \<open>\<^verbatim>\<open>update_quote\<close> on an id that is not there\<close>

text \<open>
  C5. For a quote id that no row has, and text and author valid where they are given:
  if the id is within the range of SQLite's \<^verbatim>\<open>INTEGER\<close>, \<^verbatim>\<open>update_quote\<close> returns
  \<^verbatim>\<open>False\<close> and the database (quotes, tags, associations and counters) is the one
  before the call; if it is not, the call ends in \<^verbatim>\<open>OverflowError\<close>, when
  \<^verbatim>\<open>SELECT id FROM quotes WHERE id = ?\<close> binds the id.
\<close>

theorem update_quote_absent_id_bound:
  assumes "quote_id \<notin> set (map r_id (quotes d))"
    and "\<not> invalid_field (kw_text kw)" and "\<not> invalid_field (kw_author kw)"
  shows "(sqlite_int quote_id \<longrightarrow> update_quote d quote_id kw = Inr (False, d)) \<and>
         (\<not> sqlite_int quote_id \<longrightarrow>
            update_quote d quote_id kw
              = Inl (OverflowError ''Python int too large to convert to SQLite INTEGER''))"
proof -
  have "filter (\<lambda>r. r_id r = quote_id) (quotes d) = []"
    using assms(1) by (auto simp: filter_empty_conv)
  with assms(2,3) show ?thesis
    by (simp add: update_quote_def)
qed

theorem update_quote_absent_id_bound_witness:
  "update_quote example_db 7
     (no_fields\<lparr>kw_text := Some (Some (lit ''new'')), kw_tags := Some (Some [lit ''y''])\<rparr>)
   = Inr (False, example_db) \<and>
   update_quote example_db (- 9223372036854775809)
     (no_fields\<lparr>kw_text := Some (Some (lit ''new'')), kw_tags := Some (Some [lit ''y''])\<rparr>)
   = Inl (OverflowError ''Python int too large to convert to SQLite INTEGER'')"
proof -
  have r: "sqlite_int 7" "\<not> sqlite_int (- 9223372036854775809)"
    by (simp_all add: sqlite_int_def)
  have a: "7 \<notin> set (map r_id (quotes example_db))"
    "- 9223372036854775809 \<notin> set (map r_id (quotes example_db))"
    by (simp_all add: eval_defs)
  have b: "\<not> invalid_field (kw_text
      (no_fields\<lparr>kw_text := Some (Some (lit ''new'')), kw_tags := Some (Some [lit ''y''])\<rparr>))"
    by (simp add: eval_defs)
  have c: "\<not> invalid_field (kw_author
      (no_fields\<lparr>kw_text := Some (Some (lit ''new'')), kw_tags := Some (Some [lit ''y''])\<rparr>))"
    by (simp add: eval_defs)
  show ?thesis
    using update_quote_absent_id_bound [OF a(1) b c] update_quote_absent_id_bound [OF a(2) b c] r
    by blast
qed

text \<open>
  C5 as it is worded, for every id that no row has, fails. The id \<open>2 ^ 63\<close> is not in
  the database \<open>example_db\<close>, and the call without fields, which the two checks accept,
  ends in \<^verbatim>\<open>OverflowError\<close>: it does not return \<^verbatim>\<open>False\<close>.
\<close>

theorem update_quote_absent_id_overflow:
  "9223372036854775808 \<notin> set (map r_id (quotes example_db)) \<and>
   \<not> invalid_field (kw_text no_fields) \<and> \<not> invalid_field (kw_author no_fields) \<and>
   update_quote example_db 9223372036854775808 no_fields
     = Inl (OverflowError ''Python int too large to convert to SQLite INTEGER'') \<and>
   update_quote example_db 9223372036854775808 no_fields \<noteq> Inr (False, example_db)"
  by (simp add: eval_defs)

text \<open>
  C10. The two checks of text and author come before the lookup of the id: for an id
  that no row has, a call that gives an empty or whitespace-only text or author ends in
  \<^verbatim>\<open>InvalidInputError\<close>, not in the result \<^verbatim>\<open>False\<close>.
\<close>

theorem update_quote_validates_first:
  assumes "quote_id \<notin> set (map r_id (quotes d))"
    and "kw_text kw = Some (Some s) \<or> kw_author kw = Some (Some s)"
    and "\<forall>n \<in> set s. isspace n"
  shows "(update_quote d quote_id kw = Inl (InvalidInputError ''Quote text cannot be empty'') \<or>
          update_quote d quote_id kw = Inl (InvalidInputError ''Author name cannot be empty''))
         \<and> update_quote d quote_id kw \<noteq> Inr (False, d)"
proof -
  have "blank s"
    using assms(3) by (simp add: blank_iff)
  then have "invalid_field (kw_text kw) \<or> invalid_field (kw_author kw)"
    using assms(2) by (auto simp: invalid_field_def)
  then show ?thesis
    by (auto simp: update_quote_def)
qed

theorem update_quote_validates_first_witness:
  "update_quote example_db 7 (no_fields\<lparr>kw_author := Some (Some (lit ''  ''))\<rparr>)
     = Inl (InvalidInputError ''Author name cannot be empty'')"
proof -
  have a: "7 \<notin> set (map r_id (quotes example_db))"
    by (simp add: eval_defs)
  have b: "kw_text (no_fields\<lparr>kw_author := Some (Some (lit ''  ''))\<rparr>) = Some (Some (lit ''  ''))
         \<or> kw_author (no_fields\<lparr>kw_author := Some (Some (lit ''  ''))\<rparr>) = Some (Some (lit ''  ''))"
    by (simp add: eval_defs)
  have c: "\<forall>n \<in> set (lit ''  ''). isspace n"
    by (simp add: eval_defs)
  have d: "update_quote example_db 7 (no_fields\<lparr>kw_author := Some (Some (lit ''  ''))\<rparr>)
             \<noteq> Inl (InvalidInputError ''Quote text cannot be empty'')"
    by (simp add: eval_defs)
  show ?thesis
    using update_quote_validates_first [OF a b c] d by blast
qed

subsection \<open>\<^verbatim>\<open>search_quotes\<close> without filters\<close>

lemma falsy_cases: "falsy x \<Longrightarrow> x = None \<or> x = Some []"
  by (simp add: falsy_def split: option.splits)

text \<open>
  C9. With query, author and tags all absent, or given as the empty string or the empty
  list, which \<^verbatim>\<open>if query:\<close>, \<^verbatim>\<open>if author:\<close> and \<^verbatim>\<open>if tags:\<close> treat as absent,
  \<^verbatim>\<open>search_quotes\<close> returns the same list of quotes, in the same order, as
  \<^verbatim>\<open>get_all_quotes\<close>. The ids of the quotes are distinct (the primary key), so that
  \<^verbatim>\<open>SELECT DISTINCT\<close> removes no row.
\<close>

theorem search_quotes_no_filters:
  assumes "distinct (map r_id (quotes d))"
    and "falsy query" and "falsy author" and "falsy tgs"
  shows "search_quotes c d query author tgs = get_all_quotes c d"
proof -
  have "distinct (quotes d)"
    using assms(1) by (simp add: distinct_map)
  then have nodup: "remdups (quotes d) = quotes d"
    by (rule distinct_remdups_id)
  have t: "(case tgs of None \<Rightarrow> [] | Some ts \<Rightarrow> ts) = []"
    using falsy_cases [OF assms(4)] by auto
  have q: "text_ok query r" for r
    using falsy_cases [OF assms(2)] by (auto simp: text_ok_def)
  have a: "author_ok author r" for r
    using falsy_cases [OF assms(3)] by (auto simp: author_ok_def)
  have f: "filter (\<lambda>q. True) (quotes d) = quotes d"
    by simp
  show ?thesis
    unfolding search_quotes_def get_all_quotes_def Let_def t
    by (simp only: q a f nodup simp_thms if_False)
qed

theorem search_quotes_no_filters_witness:
  "search_quotes example_clock example_db (Some []) None (Some [])
     = get_all_quotes example_clock example_db \<and>
   map q_id (get_all_quotes example_clock example_db) = [1]"
proof -
  have a: "distinct (map r_id (quotes example_db))"
    by (simp add: eval_defs)
  have b: "falsy (Some ([] :: str))" "falsy (None :: str option)" "falsy (Some ([] :: str list))"
    by (simp_all add: falsy_def)
  have c: "map q_id (get_all_quotes example_clock example_db) = [1]"
    by (simp add: eval_defs)
  show ?thesis
    using search_quotes_no_filters [OF a b, of example_clock] c by simp
qed

subsection \<open>\<^verbatim>\<open>delete_quote\<close>\<close>

lemma list_all_tags_zero:
  assumes "t \<in> set (tags d)" and "\<forall>qt \<in> set (quote_tags d). snd qt \<noteq> t_id t"
  shows "(t_name t, 0) \<in> set (list_all_tags d)"
proof -
  have none: "filter (\<lambda>qt. t_id t = snd qt) (quote_tags d) = []"
    using assms(2) by (auto simp: filter_empty_conv)
  have in_joined: "(t, None) \<in> set (tags_left_join d)"
    using assms(1) none by (auto simp: tags_left_join_def)
  have only: "q = None" if a: "(t', q) \<in> set (tags_left_join d)"
    and b: "(t_id t', t_name t') = (t_id t, t_name t)" for t' q
  proof -
    from b have "t' = t" by simp
    with a none show "q = None"
      by (auto simp: tags_left_join_def split: if_splits)
  qed
  have cnt: "filter (\<lambda>(t', q). (t_id t', t_name t') = (t_id t, t_name t) \<and> q \<noteq> None)
               (tags_left_join d) = []"
    using only by (auto simp: filter_empty_conv)
  have key: "(t_id t, t_name t)
               \<in> set (remdups (map (\<lambda>(t, q). (t_id t, t_name t)) (tags_left_join d)))"
    using in_joined by force
  have "(snd (t_id t, t_name t),
         int (length (filter (\<lambda>(t', q). (t_id t', t_name t') = (t_id t, t_name t) \<and> q \<noteq> None)
                        (tags_left_join d)))) \<in> set (list_all_tags d)"
    unfolding list_all_tags_def set_sort set_map using key by (rule imageI)
  then show ?thesis
    unfolding cnt by simp
qed

text \<open>
  C6. For an id that a quote row has, \<^verbatim>\<open>delete_quote\<close> returns \<^verbatim>\<open>True\<close>; afterwards the
  rows of \<^verbatim>\<open>quotes\<close> and of \<^verbatim>\<open>quote_tags\<close> with that quote id are gone and all others
  are kept, the table \<^verbatim>\<open>tags\<close> is as before, and every tag whose associations were all
  with that quote is listed by \<^verbatim>\<open>list_all_tags\<close> with count 0. For an id that no row
  has, it returns \<^verbatim>\<open>False\<close> and the database is unchanged if the id is within the range
  of SQLite's \<^verbatim>\<open>INTEGER\<close>; an id outside the range ends the call in \<^verbatim>\<open>OverflowError\<close>,
  when \<^verbatim>\<open>DELETE FROM quotes WHERE id = ?\<close> binds it. (SQLite stores no id outside the
  range, so that an id that a row has is within it; the model states this as a hypothesis
  of the first case.)
\<close>

theorem delete_quote_cascade_bound:
  "(sqlite_int quote_id \<and> quote_id \<in> set (map r_id (quotes d)) \<longrightarrow>
      (\<exists>d'. delete_quote d quote_id = Inr (True, d') \<and>
            quotes d' = filter (\<lambda>r. r_id r \<noteq> quote_id) (quotes d) \<and>
            quote_tags d' = filter (\<lambda>qt. fst qt \<noteq> quote_id) (quote_tags d) \<and>
            tags d' = tags d \<and>
            get_quote_by_id c d' quote_id = None \<and>
            get_tags_for_quote d' quote_id = [] \<and>
            (\<forall>t \<in> set (tags d).
               (\<forall>qt \<in> set (quote_tags d). snd qt = t_id t \<longrightarrow> fst qt = quote_id) \<longrightarrow>
               (t_name t, 0) \<in> set (list_all_tags d')))) \<and>
   (sqlite_int quote_id \<and> quote_id \<notin> set (map r_id (quotes d)) \<longrightarrow>
      delete_quote d quote_id = Inr (False, d)) \<and>
   (\<not> sqlite_int quote_id \<longrightarrow>
      delete_quote d quote_id
        = Inl (OverflowError ''Python int too large to convert to SQLite INTEGER''))"
proof (intro conjI impI)
  assume "sqlite_int quote_id \<and> quote_id \<in> set (map r_id (quotes d))"
  then have rng: "sqlite_int quote_id" and ex: "quote_id \<in> set (map r_id (quotes d))"
    by simp_all
  define d' where "d' = d\<lparr>quotes := filter (\<lambda>r. r_id r \<noteq> quote_id) (quotes d),
                            quote_tags := filter (\<lambda>qt. fst qt \<noteq> quote_id) (quote_tags d)\<rparr>"
  have "filter (\<lambda>r. r_id r = quote_id) (quotes d) \<noteq> []"
    using ex by (auto simp: filter_empty_conv)
  then have res: "delete_quote d quote_id = Inr (True, d')"
    using rng by (simp add: delete_quote_def d'_def)
  have gone: "get_quote_by_id c d' quote_id = None"
    by (simp add: get_quote_by_id_def d'_def)
  have notags: "get_tags_for_quote d' quote_id = []"
  proof -
    have e: "[t_name t. t \<leftarrow> tags d', qt \<leftarrow> quote_tags d', t_id t = snd qt, fst qt = quote_id]
               = []"
      by (auto simp: d'_def)
    show ?thesis
      unfolding get_tags_for_quote_def e by simp
  qed
  have zero: "(t_name t, 0) \<in> set (list_all_tags d')"
    if "t \<in> set (tags d)"
      and "\<forall>qt \<in> set (quote_tags d). snd qt = t_id t \<longrightarrow> fst qt = quote_id" for t
  proof (rule list_all_tags_zero)
    show "t \<in> set (tags d')" using that(1) by (simp add: d'_def)
    show "\<forall>qt \<in> set (quote_tags d'). snd qt \<noteq> t_id t"
      using that(2) by (auto simp: d'_def)
  qed
  show "\<exists>d'. delete_quote d quote_id = Inr (True, d') \<and>
            quotes d' = filter (\<lambda>r. r_id r \<noteq> quote_id) (quotes d) \<and>
            quote_tags d' = filter (\<lambda>qt. fst qt \<noteq> quote_id) (quote_tags d) \<and>
            tags d' = tags d \<and>
            get_quote_by_id c d' quote_id = None \<and>
            get_tags_for_quote d' quote_id = [] \<and>
            (\<forall>t \<in> set (tags d).
               (\<forall>qt \<in> set (quote_tags d). snd qt = t_id t \<longrightarrow> fst qt = quote_id) \<longrightarrow>
               (t_name t, 0) \<in> set (list_all_tags d'))"
    using res gone notags zero by (intro exI [of _ d']) (simp add: d'_def)
next
  assume a: "sqlite_int quote_id \<and> quote_id \<notin> set (map r_id (quotes d))"
  then have "filter (\<lambda>r. r_id r = quote_id) (quotes d) = []"
    by (auto simp: filter_empty_conv)
  then show "delete_quote d quote_id = Inr (False, d)"
    using a by (simp add: delete_quote_def)
next
  assume "\<not> sqlite_int quote_id"
  then show "delete_quote d quote_id
               = Inl (OverflowError ''Python int too large to convert to SQLite INTEGER'')"
    by (simp add: delete_quote_def)
qed

theorem delete_quote_cascade_bound_witness:
  "(\<exists>d'. delete_quote example_db 1 = Inr (True, d') \<and>
         quotes d' = [] \<and> quote_tags d' = [] \<and> tags d' = tags example_db \<and>
         (lit ''x'', 0) \<in> set (list_all_tags d')) \<and>
   delete_quote example_db 7 = Inr (False, example_db) \<and>
   delete_quote example_db (- 9223372036854775809)
     = Inl (OverflowError ''Python int too large to convert to SQLite INTEGER'')"
proof -
  have r: "sqlite_int 1" "sqlite_int 7" "\<not> sqlite_int (- 9223372036854775809)"
    by (simp_all add: sqlite_int_def)
  have a: "1 \<in> set (map r_id (quotes example_db))"
    by (simp add: eval_defs)
  have b: "7 \<notin> set (map r_id (quotes example_db))"
    by (simp add: eval_defs)
  have t: "\<lparr>t_id = 1, t_name = lit ''x''\<rparr> \<in> set (tags example_db)"
    by (simp add: eval_defs)
  have only: "\<forall>qt \<in> set (quote_tags example_db).
                snd qt = t_id \<lparr>t_id = 1, t_name = lit ''x''\<rparr> \<longrightarrow> fst qt = 1"
    by (simp add: eval_defs)
  have q: "filter (\<lambda>r. r_id r \<noteq> 1) (quotes example_db) = []"
    and l: "filter (\<lambda>qt. fst qt \<noteq> 1) (quote_tags example_db) = []"
    by (simp_all add: eval_defs)
  from delete_quote_cascade_bound [of 1 example_db example_clock] r(1) a
  obtain d' where d': "delete_quote example_db 1 = Inr (True, d')"
    and q': "quotes d' = filter (\<lambda>r. r_id r \<noteq> 1) (quotes example_db)"
    and l': "quote_tags d' = filter (\<lambda>qt. fst qt \<noteq> 1) (quote_tags example_db)"
    and t': "tags d' = tags example_db"
    and z: "\<forall>t \<in> set (tags example_db).
              (\<forall>qt \<in> set (quote_tags example_db). snd qt = t_id t \<longrightarrow> fst qt = 1) \<longrightarrow>
              (t_name t, 0) \<in> set (list_all_tags d')"
    by blast
  from z t only have "(lit ''x'', 0) \<in> set (list_all_tags d')"
    by fastforce
  with d' q' l' t' q l
  have "\<exists>d'. delete_quote example_db 1 = Inr (True, d') \<and>
         quotes d' = [] \<and> quote_tags d' = [] \<and> tags d' = tags example_db \<and>
         (lit ''x'', 0) \<in> set (list_all_tags d')"
    by (intro exI [of _ d']) simp
  moreover from delete_quote_cascade_bound [of 7 example_db example_clock] r(2) b
  have "delete_quote example_db 7 = Inr (False, example_db)"
    by blast
  moreover from delete_quote_cascade_bound [of "- 9223372036854775809" example_db example_clock]
    r(3)
  have "delete_quote example_db (- 9223372036854775809)
          = Inl (OverflowError ''Python int too large to convert to SQLite INTEGER'')"
    by blast
  ultimately show ?thesis
    by blast
qed

text \<open>
  C6 as it is worded, for every id that no row has, fails in its last part. The id
  \<open>2 ^ 63\<close> is not in the database \<open>example_db\<close>, and the call ends in
  \<^verbatim>\<open>OverflowError\<close>: it does not return \<^verbatim>\<open>False\<close>.
\<close>

theorem delete_quote_absent_id_overflow:
  "9223372036854775808 \<notin> set (map r_id (quotes example_db)) \<and>
   delete_quote example_db 9223372036854775808
     = Inl (OverflowError ''Python int too large to convert to SQLite INTEGER'') \<and>
   delete_quote example_db 9223372036854775808 \<noteq> Inr (False, example_db)"
  by (simp add: eval_defs)

subsection \<open>Tags and associations under the constraints of the schema\<close>

lemma join_inner:
  "distinct qts \<Longrightarrow>
   concat (map (\<lambda>qt. if i = snd qt then if fst qt = q then [n] else [] else []) qts)
     = (if (q, i) \<in> set qts then [n] else [])"
  by (induction qts) auto

lemma join_outer:
  "concat (map (\<lambda>t. if P t then [f t] else []) ts) = map f (filter P ts)"
  by (induction ts) auto

lemma get_tags_for_quote_linked:
  assumes "distinct (quote_tags d)"
  shows "get_tags_for_quote d q = sort (linked_names d q)"
  unfolding get_tags_for_quote_def linked_names_def
  by (simp only: join_inner [OF assms] join_outer)

lemma distinct_linked_names: "wf_db d \<Longrightarrow> distinct (linked_names d q)"
  by (simp add: wf_db_def linked_names_def distinct_map_filter)

lemma get_or_create_tag_encodable:
  assumes "get_or_create_tag d n = Inr (tid, d1)"
  shows "encodable n"
  using assms by (auto simp: get_or_create_tag_def split: if_splits)

lemma get_or_create_tag_returns:
  assumes "encodable n"
  shows "\<exists>tid d1. get_or_create_tag d n = Inr (tid, d1)"
  using assms by (auto simp: get_or_create_tag_def Let_def split: list.splits)

lemma get_or_create_tag_raises:
  assumes "\<not> encodable n"
  shows "get_or_create_tag d n = Inl (UnicodeEncodeError ''surrogates not allowed'')"
  using assms by (simp add: get_or_create_tag_def)

lemma get_or_create_tag_cases:
  assumes "get_or_create_tag d n = Inr (tid, d1)"
  shows "(d1 = d \<and> \<lparr>t_id = tid, t_name = n\<rparr> \<in> set (tags d)) \<or>
         (n \<notin> set (map t_name (tags d)) \<and> tid = tags_seq d + 1 \<and>
          d1 = d\<lparr>tags := tags d @ [\<lparr>t_id = tid, t_name = n\<rparr>], tags_seq := tid\<rparr>)"
proof (cases "filter (\<lambda>t. t_name t = n) (tags d)")
  case Nil
  then have "n \<notin> set (map t_name (tags d))"
    by (auto simp: filter_empty_conv)
  with Nil assms get_or_create_tag_encodable [OF assms] show ?thesis
    by (auto simp: get_or_create_tag_def Let_def)
next
  case (Cons row rest)
  then have "row \<in> set (filter (\<lambda>t. t_name t = n) (tags d))"
    by simp
  then have "row \<in> set (tags d)" "t_name row = n"
    by auto
  moreover have "tid = t_id row" "d1 = d"
    using Cons assms get_or_create_tag_encodable [OF assms]
    by (auto simp: get_or_create_tag_def)
  ultimately have "d1 = d" and "\<lparr>t_id = tid, t_name = n\<rparr> = row" and "row \<in> set (tags d)"
    by simp_all
  then show ?thesis
    by simp
qed

lemma get_or_create_tag_wf:
  assumes "wf_db d" and "get_or_create_tag d n = Inr (tid, d1)"
  shows "wf_db d1"
  using get_or_create_tag_cases [OF assms(2)] assms(1)
  by (fastforce simp: wf_db_def)

lemma get_or_create_tag_frame:
  assumes "get_or_create_tag d n = Inr (tid, d1)"
  shows "quotes d1 = quotes d" and "quotes_seq d1 = quotes_seq d"
    and "quote_tags d1 = quote_tags d" and "\<lparr>t_id = tid, t_name = n\<rparr> \<in> set (tags d1)"
  using get_or_create_tag_cases [OF assms] by auto

lemma get_or_create_tag_linked:
  assumes "wf_db d" and "get_or_create_tag d n = Inr (tid, d1)"
  shows "linked_names d1 q = linked_names d q"
proof -
  from get_or_create_tag_cases [OF assms(2)] show ?thesis
  proof
    assume "d1 = d \<and> \<lparr>t_id = tid, t_name = n\<rparr> \<in> set (tags d)"
    then show ?thesis by simp
  next
    assume new: "n \<notin> set (map t_name (tags d)) \<and> tid = tags_seq d + 1 \<and>
          d1 = d\<lparr>tags := tags d @ [\<lparr>t_id = tid, t_name = n\<rparr>], tags_seq := tid\<rparr>"
    have "(q, tid) \<notin> set (quote_tags d)"
    proof
      assume "(q, tid) \<in> set (quote_tags d)"
      then have "tid \<in> set (map t_id (tags d))"
        using assms(1) by (fastforce simp: wf_db_def)
      then have "tid \<le> tags_seq d"
        using assms(1) by (auto simp: wf_db_def)
      with new show False by simp
    qed
    with new show ?thesis
      by (simp add: linked_names_def)
  qed
qed

lemma get_or_create_tag_unlinked:
  assumes "wf_db d" and "get_or_create_tag d n = Inr (tid, d1)"
    and "n \<notin> set (linked_names d q)"
  shows "(q, tid) \<notin> set (quote_tags d1)"
proof
  assume in1: "(q, tid) \<in> set (quote_tags d1)"
  then have in0: "(q, tid) \<in> set (quote_tags d)"
    using get_or_create_tag_frame(3) [OF assms(2)] by simp
  have "\<lparr>t_id = tid, t_name = n\<rparr> \<in> set (tags d1)"
    by (rule get_or_create_tag_frame(4) [OF assms(2)])
  with in1 have "n \<in> set (linked_names d1 q)"
    by (force simp: linked_names_def)
  then show False
    using assms(3) get_or_create_tag_linked [OF assms(1,2)] by simp
qed

lemma insert_quote_tag_ok:
  assumes "wf_db d" and "q \<in> set (map r_id (quotes d))"
    and "\<lparr>t_id = tid, t_name = n\<rparr> \<in> set (tags d)" and "(q, tid) \<notin> set (quote_tags d)"
  shows "insert_quote_tag d q tid = Inr (d\<lparr>quote_tags := quote_tags d @ [(q, tid)]\<rparr>)"
    and "wf_db (d\<lparr>quote_tags := quote_tags d @ [(q, tid)]\<rparr>)"
    and "set (linked_names (d\<lparr>quote_tags := quote_tags d @ [(q, tid)]\<rparr>) q)
           = insert n (set (linked_names d q))"
    and "q' \<noteq> q \<Longrightarrow> linked_names (d\<lparr>quote_tags := quote_tags d @ [(q, tid)]\<rparr>) q'
           = linked_names d q'"
proof -
  have tid_in: "tid \<in> set (map t_id (tags d))"
    using assms(3) by force
  show "insert_quote_tag d q tid = Inr (d\<lparr>quote_tags := quote_tags d @ [(q, tid)]\<rparr>)"
    using assms(2,4) tid_in by (simp add: insert_quote_tag_def)
  show "wf_db (d\<lparr>quote_tags := quote_tags d @ [(q, tid)]\<rparr>)"
    using assms(1,2,4) tid_in by (auto simp: wf_db_def)
  have uniq: "t_name t = n" if "t \<in> set (tags d)" "t_id t = tid" for t
  proof -
    have "inj_on t_id (set (tags d))"
      using assms(1) by (simp add: wf_db_def distinct_map)
    then have "t = \<lparr>t_id = tid, t_name = n\<rparr>"
      using that assms(3) by (auto simp: inj_on_def)
    then show ?thesis by simp
  qed
  show "set (linked_names (d\<lparr>quote_tags := quote_tags d @ [(q, tid)]\<rparr>) q)
           = insert n (set (linked_names d q))"
  proof (intro set_eqI iffI)
    fix x
    assume "x \<in> set (linked_names (d\<lparr>quote_tags := quote_tags d @ [(q, tid)]\<rparr>) q)"
    then obtain t where "t \<in> set (tags d)" and "x = t_name t"
      and "(q, t_id t) \<in> set (quote_tags d) \<or> t_id t = tid"
      by (auto simp: linked_names_def)
    then show "x \<in> insert n (set (linked_names d q))"
      using uniq by (auto simp: linked_names_def)
  next
    fix x
    assume "x \<in> insert n (set (linked_names d q))"
    then consider "x = n" | "x \<in> set (linked_names d q)"
      by auto
    then show "x \<in> set (linked_names (d\<lparr>quote_tags := quote_tags d @ [(q, tid)]\<rparr>) q)"
    proof cases
      case 1
      have "t_name \<lparr>t_id = tid, t_name = n\<rparr>
              \<in> set (linked_names (d\<lparr>quote_tags := quote_tags d @ [(q, tid)]\<rparr>) q)"
        unfolding linked_names_def set_map
        by (rule imageI) (simp add: assms(3))
      with 1 show ?thesis by simp
    next
      case 2
      then show ?thesis by (auto simp: linked_names_def)
    qed
  qed
  show "linked_names (d\<lparr>quote_tags := quote_tags d @ [(q, tid)]\<rparr>) q' = linked_names d q'"
    if "q' \<noteq> q"
    using that by (simp add: linked_names_def)
qed



lemma surviving_Cons:
  "surviving (n # ns) = (if blank n then surviving ns else strip n # surviving ns)"
  by (simp add: surviving_def)

lemma add_tags_ok:
  assumes "wf_db d" and "q \<in> set (map r_id (quotes d))"
    and "distinct (surviving ns)" and "set (surviving ns) \<inter> set (linked_names d q) = {}"
    and "list_all encodable (surviving ns)"
  shows "\<exists>d'. add_tags d q ns acc = Inr (d', acc @ surviving ns) \<and> wf_db d' \<and>
              quotes d' = quotes d \<and> quotes_seq d' = quotes_seq d \<and>
              set (linked_names d' q) = set (linked_names d q) \<union> set (surviving ns) \<and>
              (\<forall>q'. q' \<noteq> q \<longrightarrow> linked_names d' q' = linked_names d q')"
  using assms
proof (induction ns arbitrary: d acc)
  case Nil
  then show ?case by (simp add: surviving_def)
next
  case (Cons n ns)
  show ?case
  proof (cases "blank n")
    case True
    with Cons.prems have "distinct (surviving ns)"
      and "set (surviving ns) \<inter> set (linked_names d q) = {}"
      and "list_all encodable (surviving ns)"
      by (simp_all add: surviving_Cons)
    from Cons.IH [OF Cons.prems(1,2) this, of acc] True show ?thesis
      by (simp add: surviving_Cons)
  next
    case False
    have surv: "surviving (n # ns) = strip n # surviving ns"
      using False by (simp add: surviving_Cons)
    have "encodable (strip n)" and enc: "list_all encodable (surviving ns)"
      using Cons.prems(5) surv by simp_all
    from get_or_create_tag_returns [OF this(1), of d]
    obtain tid d1 where g: "get_or_create_tag d (strip n) = Inr (tid, d1)"
      by blast
    let ?d2 = "d1\<lparr>quote_tags := quote_tags d1 @ [(q, tid)]\<rparr>"
    have fresh: "strip n \<notin> set (linked_names d q)"
      using Cons.prems(4) surv by auto
    have wf1: "wf_db d1"
      by (rule get_or_create_tag_wf [OF Cons.prems(1) g])
    have q1: "q \<in> set (map r_id (quotes d1))"
      using Cons.prems(2) get_or_create_tag_frame(1) [OF g] by simp
    have t1: "\<lparr>t_id = tid, t_name = strip n\<rparr> \<in> set (tags d1)"
      by (rule get_or_create_tag_frame(4) [OF g])
    have u1: "(q, tid) \<notin> set (quote_tags d1)"
      by (rule get_or_create_tag_unlinked [OF Cons.prems(1) g fresh])
    note ins = insert_quote_tag_ok [OF wf1 q1 t1 u1]
    have l1: "linked_names d1 q' = linked_names d q'" for q'
      by (rule get_or_create_tag_linked [OF Cons.prems(1) g])
    have q2: "q \<in> set (map r_id (quotes ?d2))"
      using q1 by simp
    have dist: "distinct (surviving ns)"
      using Cons.prems(3) surv by simp
    have disj: "set (surviving ns) \<inter> set (linked_names ?d2 q) = {}"
      using Cons.prems(3,4) surv ins(3) l1 by auto
    from Cons.IH [OF ins(2) q2 dist disj enc, of "acc @ [strip n]"]
    obtain d' where r: "add_tags ?d2 q ns (acc @ [strip n])
                          = Inr (d', (acc @ [strip n]) @ surviving ns)"
      and w: "wf_db d'" and fq: "quotes d' = quotes ?d2" and fs: "quotes_seq d' = quotes_seq ?d2"
      and lq: "set (linked_names d' q) = set (linked_names ?d2 q) \<union> set (surviving ns)"
      and lo: "\<forall>q'. q' \<noteq> q \<longrightarrow> linked_names d' q' = linked_names ?d2 q'"
      by blast
    have "add_tags d q (n # ns) acc = Inr (d', acc @ surviving (n # ns))"
      using False g ins(1) r surv by simp
    moreover have "quotes d' = quotes d" "quotes_seq d' = quotes_seq d"
      using fq fs get_or_create_tag_frame(1,2) [OF g] by simp_all
    moreover have "set (linked_names d' q) = set (linked_names d q) \<union> set (surviving (n # ns))"
      using lq ins(3) l1 surv by auto
    moreover have "\<forall>q'. q' \<noteq> q \<longrightarrow> linked_names d' q' = linked_names d q'"
      using lo ins(4) l1 by simp
    ultimately show ?thesis
      using w by blast
  qed
qed

lemma update_tags_add_tags:
  "update_tags d q ns = (case add_tags d q ns acc of Inl e \<Rightarrow> Inl e | Inr (d', names) \<Rightarrow> Inr d')"
proof (induction ns arbitrary: d acc)
  case Nil
  show ?case by simp
next
  case (Cons n ns)
  show ?case
  proof (cases "blank n")
    case True
    then show ?thesis
      using Cons.IH [of d acc] by simp
  next
    case False
    show ?thesis
    proof (cases "get_or_create_tag d (strip n)")
      case (Inl e)
      then show ?thesis
        using False by simp
    next
      case (Inr res)
      obtain tid d1 where res: "res = (tid, d1)"
        by (cases res)
      show ?thesis
      proof (cases "insert_quote_tag d1 q tid")
        case (Inl e)
        then show ?thesis
          using False Inr res by simp
      next
        case ins: (Inr d2)
        then show ?thesis
          using False Inr res Cons.IH [of d2 "acc @ [strip n]"] by simp
      qed
    qed
  qed
qed

lemma add_quote_ok:
  assumes "wf_db d" and "\<not> blank text" and "\<not> blank author"
    and "distinct (surviving (case tgs of None \<Rightarrow> [] | Some ts \<Rightarrow> ts))"
    and "bindable text author source year (case tgs of None \<Rightarrow> [] | Some ts \<Rightarrow> ts)"
  shows "\<exists>d'. add_quote c d text author source year tgs
               = Inr (\<lparr>q_id = quotes_seq d + 1, q_text = strip text, q_author = strip author,
                       q_source = source, q_year = year,
                       q_created_at = (if current_timestamp c \<noteq> [] then current_timestamp c
                                       else now_isoformat c),
                       q_tags = surviving (case tgs of None \<Rightarrow> [] | Some ts \<Rightarrow> ts)\<rparr>, d') \<and>
              wf_db d' \<and>
              quotes d' = quotes d @
                 [\<lparr>r_id = quotes_seq d + 1, r_text = strip text, r_author = strip author,
                   r_source = source, r_year = year, r_created_at = current_timestamp c\<rparr>] \<and>
              set (linked_names d' (quotes_seq d + 1))
                 = set (surviving (case tgs of None \<Rightarrow> [] | Some ts \<Rightarrow> ts)) \<and>
              (\<forall>q'. q' \<noteq> quotes_seq d + 1 \<longrightarrow> linked_names d' q' = linked_names d q')"
proof -
  let ?id = "quotes_seq d + 1"
  let ?row = "\<lparr>r_id = ?id, r_text = strip text, r_author = strip author,
                r_source = source, r_year = year, r_created_at = current_timestamp c\<rparr>"
  let ?d1 = "d\<lparr>quotes := quotes d @ [?row], quotes_seq := ?id\<rparr>"
  let ?ts = "case tgs of None \<Rightarrow> [] | Some ts \<Rightarrow> ts"
  have new: "?id \<notin> set (map r_id (quotes d))"
    using assms(1) by (fastforce simp: wf_db_def)
  have wf1: "wf_db ?d1"
    using assms(1) new by (fastforce simp: wf_db_def)
  have q1: "?id \<in> set (map r_id (quotes ?d1))"
    by simp
  have nolink: "(?id, t) \<notin> set (quote_tags d)" for t
    using assms(1) new by (fastforce simp: wf_db_def)
  have l1: "linked_names ?d1 q' = linked_names d q'" for q'
    by (simp add: linked_names_def)
  have l0: "linked_names ?d1 ?id = []"
    using nolink by (simp add: linked_names_def)
  have disj: "set (surviving ?ts) \<inter> set (linked_names ?d1 ?id) = {}"
    using l0 by simp
  have enc: "list_all encodable (surviving ?ts)"
    using assms(5) by (simp add: bindable_def encodable_surviving)
  note bound = bindable_bind [OF assms(5)]
  from add_tags_ok [OF wf1 q1 assms(4) disj enc, of "[]"]
  obtain d' where r: "add_tags ?d1 ?id ?ts [] = Inr (d', surviving ?ts)"
    and w: "wf_db d'" and fq: "quotes d' = quotes ?d1"
    and lq: "set (linked_names d' ?id) = set (linked_names ?d1 ?id) \<union> set (surviving ?ts)"
    and lo: "\<forall>q'. q' \<noteq> ?id \<longrightarrow> linked_names d' q' = linked_names ?d1 q'"
    by auto
  have loop: "(case tgs of None \<Rightarrow> Inr (?d1, [])
               | Some ts \<Rightarrow> if ts = [] then Inr (?d1, []) else add_tags ?d1 ?id ts [])
              = Inr (d', surviving ?ts)"
    using r by (auto split: option.splits simp: surviving_def)
  have "filter (\<lambda>r. r_id r = ?id) (quotes d) = []"
    using new by (force simp: filter_empty_conv)
  then have sel: "filter (\<lambda>r. r_id r = ?id) (quotes d') = [?row]"
    using fq by simp
  have "add_quote c d text author source year tgs = Inr (from_row c ?row (surviving ?ts), d')"
    unfolding add_quote_def Let_def loop bound using assms(2,3) sel by simp
  then show ?thesis
    using w fq lq lo l0 l1 by (auto simp: from_row_def)
qed

subsection \<open>Seeding\<close>

lemma blank_Nil: "blank []"
  by (simp add: blank_def)

lemma blank_Cons: "blank (x # xs) = (if isspace x then blank xs else False)"
  by (simp add: blank_iff)

lemma seeds_valid: "list_all valid_seed SEED_QUOTES"
  by (simp add: SEED_QUOTES_def valid_seed_def lit_def blank_Nil blank_Cons surviving_def
                isspace_def strip_def bindable_def encodable_def sqlite_int_def)

lemma seeds_length: "length SEED_QUOTES = 20"
  by (simp add: SEED_QUOTES_def)

lemma seed_loop_ok:
  assumes "list_all valid_seed seeds" and "wf_db d"
  shows "\<exists>d'. seed_loop clk d seeds i n = (n + int (length seeds), d') \<and> wf_db d' \<and>
              map row_columns (quotes d') = map row_columns (quotes d) @ map seed_columns seeds"
  using assms
proof (induction seeds arbitrary: d i n)
  case Nil
  then show ?case by simp
next
  case (Cons s seeds)
  from Cons.prems(1) have v: "valid_seed s" and vs: "list_all valid_seed seeds"
    by simp_all
  from v have "\<not> blank (s_text s)" and "\<not> blank (s_author s)"
    and "distinct (surviving (case s_tags s of None \<Rightarrow> [] | Some ts \<Rightarrow> ts))"
    and "bindable (s_text s) (s_author s) (s_source s) (s_year s)
           (case s_tags s of None \<Rightarrow> [] | Some ts \<Rightarrow> ts)"
    by (simp_all add: valid_seed_def)
  from add_quote_ok [OF Cons.prems(2) this, of "clk i"]
  obtain q d1 where a: "add_quote (clk i) d (s_text s) (s_author s) (s_source s) (s_year s)
                          (s_tags s) = Inr (q, d1)"
    and w1: "wf_db d1"
    and r1: "quotes d1 = quotes d @
               [\<lparr>r_id = quotes_seq d + 1, r_text = strip (s_text s),
                 r_author = strip (s_author s), r_source = s_source s, r_year = s_year s,
                 r_created_at = current_timestamp (clk i)\<rparr>]"
    by blast
  from Cons.IH [OF vs w1, of "Suc i" "n + 1"]
  obtain d' where l: "seed_loop clk d1 seeds (Suc i) (n + 1) = (n + 1 + int (length seeds), d')"
    and w: "wf_db d'"
    and r: "map row_columns (quotes d') = map row_columns (quotes d1) @ map seed_columns seeds"
    by blast
  have "seed_loop clk d (s # seeds) i n = (n + int (length (s # seeds)), d')"
    using a l by simp
  moreover have "map row_columns (quotes d')
                   = map row_columns (quotes d) @ map seed_columns (s # seeds)"
    using r r1 by (simp add: row_columns_def seed_columns_def)
  ultimately show ?case
    using w by blast
qed

lemma length_get_all_quotes: "length (get_all_quotes c d) = length (quotes d)"
  by (simp add: get_all_quotes_def order_by_created_at_desc_def)

text \<open>
  C8. On a database that holds at least one quote, \<^verbatim>\<open>seed_database\<close> without
  \<^verbatim>\<open>force\<close> inserts nothing and returns \<open>(0, total)\<close>, the database unchanged. With
  \<^verbatim>\<open>force=True\<close> every entry of \<^verbatim>\<open>SEED_QUOTES\<close> is inserted again: the count
  returned is the size of the list (20), the total grows by it, and the new rows are the
  entries of the list, in order, after the rows that were there, whatever these hold.
\<close>

theorem seed_database_force:
  assumes "wf_db d" and "quotes d \<noteq> []"
  shows "seed_database clk d False = ((0, int (length (quotes d))), d) \<and>
         length SEED_QUOTES = 20 \<and>
         (\<exists>d'. seed_database clk d True
                  = ((int (length SEED_QUOTES),
                      int (length (quotes d)) + int (length SEED_QUOTES)), d') \<and>
               map row_columns (quotes d')
                  = map row_columns (quotes d) @ map seed_columns SEED_QUOTES)"
proof (intro conjI)
  show "seed_database clk d False = ((0, int (length (quotes d))), d)"
    using assms(2) by (simp add: seed_database_def check_if_seeded_def length_get_all_quotes)
  show "length SEED_QUOTES = 20"
    by (rule seeds_length)
  from seed_loop_ok [OF seeds_valid assms(1), of clk 0 0]
  obtain d' where l: "seed_loop clk d SEED_QUOTES 0 0 = (0 + int (length SEED_QUOTES), d')"
    and r: "map row_columns (quotes d')
              = map row_columns (quotes d) @ map seed_columns SEED_QUOTES"
    by blast
  from r have "length (map row_columns (quotes d'))
                 = length (map row_columns (quotes d) @ map seed_columns SEED_QUOTES)"
    by simp
  then have n: "length (quotes d') = length (quotes d) + length SEED_QUOTES"
    by simp
  have "seed_database clk d True
          = ((int (length SEED_QUOTES), int (length (quotes d)) + int (length SEED_QUOTES)), d')"
    using l n by (simp add: seed_database_def length_get_all_quotes)
  with r show "\<exists>d'. seed_database clk d True
                  = ((int (length SEED_QUOTES),
                      int (length (quotes d)) + int (length SEED_QUOTES)), d') \<and>
               map row_columns (quotes d')
                  = map row_columns (quotes d) @ map seed_columns SEED_QUOTES"
    by blast
qed

theorem seed_database_force_witness:
  "seed_database (\<lambda>i. example_clock) example_db False = ((0, 1), example_db) \<and>
   fst (seed_database (\<lambda>i. example_clock) example_db True) = (20, 21)"
proof -
  have a: "quotes example_db \<noteq> []"
    by (simp add: example_db_def)
  have n: "length (quotes example_db) = 1"
    by (simp add: example_db_def)
  from seed_database_force [OF example_db_wf a, of "\<lambda>i. example_clock"] n
  show ?thesis
    by auto
qed

subsection \<open>\<^verbatim>\<open>add_tag_to_quote\<close>\<close>

lemma length_filter_eq_one:
  assumes "distinct xs" and "x \<in> set xs"
  shows "length (filter (\<lambda>y. y = x) xs) = 1"
proof -
  have "{y. y = x} \<inter> set xs = {x}"
    using assms(2) by auto
  then show ?thesis
    using distinct_length_filter [OF assms(1), of "\<lambda>y. y = x"] by simp
qed

lemma get_or_create_tag_existing:
  assumes "wf_db d" and "\<lparr>t_id = tid, t_name = n\<rparr> \<in> set (tags d)" and "encodable n"
  shows "get_or_create_tag d n = Inr (tid, d)"
proof -
  from get_or_create_tag_returns [OF assms(3), of d]
  obtain tid' d' where g: "get_or_create_tag d n = Inr (tid', d')"
    by blast
  have "n \<in> set (map t_name (tags d))"
    using assms(2) by force
  with get_or_create_tag_cases [OF g]
  have same: "d' = d" and row: "\<lparr>t_id = tid', t_name = n\<rparr> \<in> set (tags d)"
    by auto
  have "inj_on t_name (set (tags d))"
    using assms(1) by (simp add: wf_db_def distinct_map)
  from inj_onD [OF this _ row assms(2)]
  have "\<lparr>t_id = tid', t_name = n\<rparr> = \<lparr>t_id = tid, t_name = n\<rparr>"
    by simp
  then have "tid' = tid" by simp
  with g same show ?thesis by simp
qed

lemma add_tag_to_quote_again:
  assumes "wf_db d" and "q \<in> set (map r_id (quotes d))" and "\<not> blank tag"
    and "\<lparr>t_id = tid, t_name = strip tag\<rparr> \<in> set (tags d)"
    and "(q, tid) \<in> set (quote_tags d)"
    and "sqlite_int q" and "encodable (strip tag)"
  shows "add_tag_to_quote d q tag = Inr (True, d)"
proof -
  have e: "filter (\<lambda>r. r_id r = q) (quotes d) \<noteq> []"
    using assms(2) by (auto simp: filter_empty_conv)
  have l: "filter (\<lambda>qt. fst qt = q \<and> snd qt = tid) (quote_tags d) \<noteq> []"
    using assms(5) by (force simp: filter_empty_conv)
  show ?thesis
    using assms(3,6) e l get_or_create_tag_existing [OF assms(1,4,7)]
    by (simp add: add_tag_to_quote_def)
qed

text \<open>
  C7. \<^verbatim>\<open>add_tag_to_quote\<close> ends in \<^verbatim>\<open>InvalidInputError\<close> for every tag that is empty
  after trimming, whatever the quote id (this check comes first). For a tag that is not
  empty after trimming: a quote id outside the range of SQLite's \<^verbatim>\<open>INTEGER\<close> ends the
  call in \<^verbatim>\<open>OverflowError\<close>; for an id within the range that no row has, the call returns
  \<^verbatim>\<open>False\<close> and changes nothing; for a quote that exists and a tag that holds a
  surrogate code point, it ends in \<^verbatim>\<open>UnicodeEncodeError\<close>; for a quote that exists and a
  tag without surrogates it returns \<^verbatim>\<open>True\<close>, a second call with the same arguments
  returns \<^verbatim>\<open>True\<close> and leaves the database as the first call left it, the tag name then
  occurs exactly once among the tags of the quote, and \<^verbatim>\<open>quote_tags\<close> holds exactly one
  row for the pair. (SQLite stores no id outside the range, so that an id that a row has is
  within it; the model states this as a hypothesis.)
\<close>

theorem add_tag_to_quote_idempotent_bound:
  "(blank tag \<longrightarrow>
      add_tag_to_quote d quote_id tag = Inl (InvalidInputError ''Tag name cannot be empty'')) \<and>
   (\<not> blank tag \<and> \<not> sqlite_int quote_id \<longrightarrow>
      add_tag_to_quote d quote_id tag
        = Inl (OverflowError ''Python int too large to convert to SQLite INTEGER'')) \<and>
   (\<not> blank tag \<and> sqlite_int quote_id \<and> quote_id \<notin> set (map r_id (quotes d)) \<longrightarrow>
      add_tag_to_quote d quote_id tag = Inr (False, d)) \<and>
   (\<not> blank tag \<and> \<not> encodable tag \<and> sqlite_int quote_id \<and>
    quote_id \<in> set (map r_id (quotes d)) \<longrightarrow>
      add_tag_to_quote d quote_id tag = Inl (UnicodeEncodeError ''surrogates not allowed'')) \<and>
   (wf_db d \<and> \<not> blank tag \<and> encodable tag \<and> sqlite_int quote_id \<and>
    quote_id \<in> set (map r_id (quotes d)) \<longrightarrow>
      (\<exists>d1. add_tag_to_quote d quote_id tag = Inr (True, d1) \<and>
            add_tag_to_quote d1 quote_id tag = Inr (True, d1) \<and>
            length (filter (\<lambda>n. n = strip tag) (get_tags_for_quote d1 quote_id)) = 1 \<and>
            (\<exists>t \<in> set (tags d1). t_name t = strip tag \<and>
               length (filter (\<lambda>qt. qt = (quote_id, t_id t)) (quote_tags d1)) = 1)))"
proof (intro conjI impI)
  assume "\<not> blank tag \<and> \<not> sqlite_int quote_id"
  then show "add_tag_to_quote d quote_id tag
               = Inl (OverflowError ''Python int too large to convert to SQLite INTEGER'')"
    by (simp add: add_tag_to_quote_def)
next
  assume a: "\<not> blank tag \<and> \<not> encodable tag \<and> sqlite_int quote_id \<and>
             quote_id \<in> set (map r_id (quotes d))"
  then have e: "filter (\<lambda>r. r_id r = quote_id) (quotes d) \<noteq> []"
    by (auto simp: filter_empty_conv)
  from a have "\<not> encodable (strip tag)"
    by (simp add: encodable_strip)
  from get_or_create_tag_raises [OF this, of d] a e
  show "add_tag_to_quote d quote_id tag = Inl (UnicodeEncodeError ''surrogates not allowed'')"
    by (simp add: add_tag_to_quote_def)
next
  assume "blank tag"
  then show "add_tag_to_quote d quote_id tag
               = Inl (InvalidInputError ''Tag name cannot be empty'')"
    by (simp add: add_tag_to_quote_def)
next
  assume a: "\<not> blank tag \<and> sqlite_int quote_id \<and> quote_id \<notin> set (map r_id (quotes d))"
  then have "filter (\<lambda>r. r_id r = quote_id) (quotes d) = []"
    by (auto simp: filter_empty_conv)
  with a show "add_tag_to_quote d quote_id tag = Inr (False, d)"
    by (simp add: add_tag_to_quote_def)
next
  assume a: "wf_db d \<and> \<not> blank tag \<and> encodable tag \<and> sqlite_int quote_id \<and>
             quote_id \<in> set (map r_id (quotes d))"
  then have wf: "wf_db d" and nb: "\<not> blank tag" and ex: "quote_id \<in> set (map r_id (quotes d))"
    and rng: "sqlite_int quote_id" and "encodable tag"
    by simp_all
  then have enc: "encodable (strip tag)"
    by (simp add: encodable_strip)
  have e: "filter (\<lambda>r. r_id r = quote_id) (quotes d) \<noteq> []"
    using ex by (auto simp: filter_empty_conv)
  from get_or_create_tag_returns [OF enc, of d]
  obtain tid d1 where g: "get_or_create_tag d (strip tag) = Inr (tid, d1)"
    by blast
  have wf1: "wf_db d1"
    by (rule get_or_create_tag_wf [OF wf g])
  have q1: "quote_id \<in> set (map r_id (quotes d1))"
    using ex get_or_create_tag_frame(1) [OF g] by simp
  have t1: "\<lparr>t_id = tid, t_name = strip tag\<rparr> \<in> set (tags d1)"
    by (rule get_or_create_tag_frame(4) [OF g])
  have "\<exists>d2. add_tag_to_quote d quote_id tag = Inr (True, d2) \<and> wf_db d2 \<and>
              quote_id \<in> set (map r_id (quotes d2)) \<and>
              \<lparr>t_id = tid, t_name = strip tag\<rparr> \<in> set (tags d2) \<and>
              (quote_id, tid) \<in> set (quote_tags d2)"
  proof (cases "(quote_id, tid) \<in> set (quote_tags d1)")
    case True
    then have "filter (\<lambda>qt. fst qt = quote_id \<and> snd qt = tid) (quote_tags d1) \<noteq> []"
      by (force simp: filter_empty_conv)
    then have "add_tag_to_quote d quote_id tag = Inr (True, d1)"
      using nb rng e g by (simp add: add_tag_to_quote_def)
    then show ?thesis
      using wf1 q1 t1 True by blast
  next
    case False
    then have f: "filter (\<lambda>qt. fst qt = quote_id \<and> snd qt = tid) (quote_tags d1) = []"
      by (auto simp: filter_empty_conv)
    note ins = insert_quote_tag_ok [OF wf1 q1 t1 False]
    have "add_tag_to_quote d quote_id tag
            = Inr (True, d1\<lparr>quote_tags := quote_tags d1 @ [(quote_id, tid)]\<rparr>)"
      using nb rng e g f ins(1) by (simp add: add_tag_to_quote_def)
    then show ?thesis
      using ins(2) q1 t1
      by (intro exI [of _ "d1\<lparr>quote_tags := quote_tags d1 @ [(quote_id, tid)]\<rparr>"]) simp
  qed
  then obtain d2 where r: "add_tag_to_quote d quote_id tag = Inr (True, d2)"
    and wf2: "wf_db d2" and q2: "quote_id \<in> set (map r_id (quotes d2))"
    and t2: "\<lparr>t_id = tid, t_name = strip tag\<rparr> \<in> set (tags d2)"
    and l2: "(quote_id, tid) \<in> set (quote_tags d2)"
    by blast
  have again: "add_tag_to_quote d2 quote_id tag = Inr (True, d2)"
    by (rule add_tag_to_quote_again [OF wf2 q2 nb t2 l2 rng enc])
  have dq: "distinct (quote_tags d2)"
    using wf2 by (simp add: wf_db_def)
  have "t_name \<lparr>t_id = tid, t_name = strip tag\<rparr> \<in> set (linked_names d2 quote_id)"
    unfolding linked_names_def set_map
    by (rule imageI) (simp add: t2 l2)
  then have "strip tag \<in> set (get_tags_for_quote d2 quote_id)"
    by (simp add: get_tags_for_quote_linked [OF dq])
  moreover have "distinct (get_tags_for_quote d2 quote_id)"
    by (simp add: get_tags_for_quote_linked [OF dq] distinct_linked_names [OF wf2])
  ultimately have once: "length (filter (\<lambda>n. n = strip tag) (get_tags_for_quote d2 quote_id)) = 1"
    by (intro length_filter_eq_one)
  have rows: "length (filter (\<lambda>qt. qt = (quote_id, tid)) (quote_tags d2)) = 1"
    using dq l2 by (rule length_filter_eq_one)
  have "\<exists>t \<in> set (tags d2). t_name t = strip tag \<and>
          length (filter (\<lambda>qt. qt = (quote_id, t_id t)) (quote_tags d2)) = 1"
    using t2 rows by (intro bexI [of _ "\<lparr>t_id = tid, t_name = strip tag\<rparr>"]) simp_all
  with r again once
  show "\<exists>d1. add_tag_to_quote d quote_id tag = Inr (True, d1) \<and>
            add_tag_to_quote d1 quote_id tag = Inr (True, d1) \<and>
            length (filter (\<lambda>n. n = strip tag) (get_tags_for_quote d1 quote_id)) = 1 \<and>
            (\<exists>t \<in> set (tags d1). t_name t = strip tag \<and>
               length (filter (\<lambda>qt. qt = (quote_id, t_id t)) (quote_tags d1)) = 1)"
    by blast
qed

theorem add_tag_to_quote_idempotent_bound_witness:
  "(\<exists>d1. add_tag_to_quote example_db 1 (lit '' y '') = Inr (True, d1) \<and>
         add_tag_to_quote d1 1 (lit '' y '') = Inr (True, d1) \<and>
         length (filter (\<lambda>n. n = lit ''y'') (get_tags_for_quote d1 1)) = 1) \<and>
   add_tag_to_quote example_db 1 (lit ''  '')
     = Inl (InvalidInputError ''Tag name cannot be empty'') \<and>
   add_tag_to_quote example_db 7 (lit ''y'') = Inr (False, example_db) \<and>
   add_tag_to_quote example_db (- 9223372036854775809) (lit ''y'')
     = Inl (OverflowError ''Python int too large to convert to SQLite INTEGER'') \<and>
   add_tag_to_quote example_db 1 [121, 57343]
     = Inl (UnicodeEncodeError ''surrogates not allowed'')"
proof -
  have nb: "\<not> blank (lit '' y '')" and nb': "\<not> blank (lit ''y'')" and b: "blank (lit ''  '')"
    and nb'': "\<not> blank [121, 57343]"
    by (simp_all add: eval_defs)
  have s: "strip (lit '' y '') = lit ''y''"
    by (simp add: eval_defs)
  have enc: "encodable (lit '' y '')" and nenc: "\<not> encodable [121, 57343]"
    by (simp_all add: eval_defs)
  have r: "sqlite_int 1" "sqlite_int 7" "\<not> sqlite_int (- 9223372036854775809)"
    by (simp_all add: sqlite_int_def)
  have ex: "1 \<in> set (map r_id (quotes example_db))"
    and nex: "7 \<notin> set (map r_id (quotes example_db))"
    by (simp_all add: eval_defs)
  from add_tag_to_quote_idempotent_bound [of "lit '' y ''" example_db 1]
    example_db_wf nb enc r(1) ex s
  have "\<exists>d1. add_tag_to_quote example_db 1 (lit '' y '') = Inr (True, d1) \<and>
         add_tag_to_quote d1 1 (lit '' y '') = Inr (True, d1) \<and>
         length (filter (\<lambda>n. n = lit ''y'') (get_tags_for_quote d1 1)) = 1"
    by auto
  moreover from add_tag_to_quote_idempotent_bound [of "lit ''  ''" example_db 1] b
  have "add_tag_to_quote example_db 1 (lit ''  '')
          = Inl (InvalidInputError ''Tag name cannot be empty'')"
    by blast
  moreover from add_tag_to_quote_idempotent_bound [of "lit ''y''" example_db 7] nb' r(2) nex
  have "add_tag_to_quote example_db 7 (lit ''y'') = Inr (False, example_db)"
    by blast
  moreover from add_tag_to_quote_idempotent_bound
    [of "lit ''y''" example_db "- 9223372036854775809"] nb' r(3)
  have "add_tag_to_quote example_db (- 9223372036854775809) (lit ''y'')
          = Inl (OverflowError ''Python int too large to convert to SQLite INTEGER'')"
    by blast
  moreover from add_tag_to_quote_idempotent_bound [of "[121, 57343]" example_db 1]
    nb'' nenc r(1) ex
  have "add_tag_to_quote example_db 1 [121, 57343]
          = Inl (UnicodeEncodeError ''surrogates not allowed'')"
    by blast
  ultimately show ?thesis
    by blast
qed

text \<open>
  C7 as it is worded fails, in three ways, on the database \<open>example_db\<close>, which holds the
  quote 1 and no quote 7. For the absent id 7 and a tag of one space the call ends in
  \<^verbatim>\<open>InvalidInputError\<close>: it does not return \<^verbatim>\<open>False\<close>. For the absent id \<open>2 ^ 63\<close> and
  the tag \<^verbatim>\<open>y\<close> it ends in \<^verbatim>\<open>OverflowError\<close>, when
  \<^verbatim>\<open>SELECT id FROM quotes WHERE id = ?\<close> binds the id. For the quote 1 and the tag of the
  one code point U+D800, which \<^verbatim>\<open>strip\<close> leaves as it is, it ends in
  \<^verbatim>\<open>UnicodeEncodeError\<close>, when \<^verbatim>\<open>SELECT id FROM tags WHERE name = ?\<close> binds the name:
  it does not return \<^verbatim>\<open>True\<close>, and no association is made.
\<close>

theorem add_tag_to_quote_raises:
  "7 \<notin> set (map r_id (quotes example_db)) \<and>
   add_tag_to_quote example_db 7 (lit '' '')
     = Inl (InvalidInputError ''Tag name cannot be empty'') \<and>
   9223372036854775808 \<notin> set (map r_id (quotes example_db)) \<and> \<not> blank (lit ''y'') \<and>
   add_tag_to_quote example_db 9223372036854775808 (lit ''y'')
     = Inl (OverflowError ''Python int too large to convert to SQLite INTEGER'') \<and>
   1 \<in> set (map r_id (quotes example_db)) \<and> \<not> blank [55296] \<and> strip [55296] = [55296] \<and>
   add_tag_to_quote example_db 1 [55296]
     = Inl (UnicodeEncodeError ''surrogates not allowed'')"
  by (simp add: eval_defs)

subsection \<open>Tag lists without a repeated name\<close>

text \<open>
  Where no tag name is given twice, and all values can be bound, both tag loops succeed:
  the quote is returned with the names kept, in the order of the call, and stored with the
  same names, which \<^verbatim>\<open>get_quote_by_id\<close> gives sorted; \<^verbatim>\<open>update_quote\<close> with tags
  replaces the names of the quote by the names kept (none, for the empty list) and leaves
  the other quotes' names as they were; without tags it leaves all associations as they
  were.
\<close>

lemma sort_eq_if_same_set:
  fixes xs ys :: "'a::linorder list"
  assumes "distinct xs" and "distinct ys" and "set xs = set ys"
  shows "sort xs = sort ys"
  by (rule sorted_distinct_set_unique) (simp_all add: assms)

lemma add_quote_stored_tags:
  assumes "wf_db d" and "\<not> blank text" and "\<not> blank author"
    and "distinct (surviving (case tgs of None \<Rightarrow> [] | Some ts \<Rightarrow> ts))"
    and "bindable text author source year (case tgs of None \<Rightarrow> [] | Some ts \<Rightarrow> ts)"
  shows "\<exists>q d'. add_quote c d text author source year tgs = Inr (q, d') \<and>
               q_tags q = surviving (case tgs of None \<Rightarrow> [] | Some ts \<Rightarrow> ts) \<and>
               map_option q_tags (get_quote_by_id c d' (q_id q)) = Some (sort (q_tags q))"
proof -
  let ?ts = "surviving (case tgs of None \<Rightarrow> [] | Some ts \<Rightarrow> ts)"
  let ?id = "quotes_seq d + 1"
  from add_quote_ok [OF assms, of c]
  obtain q d' where a: "add_quote c d text author source year tgs = Inr (q, d')"
    and qi: "q_id q = ?id" and qt: "q_tags q = ?ts"
    and w: "wf_db d'"
    and r: "quotes d' = quotes d @
                 [\<lparr>r_id = ?id, r_text = strip text, r_author = strip author,
                   r_source = source, r_year = year, r_created_at = current_timestamp c\<rparr>]"
    and l: "set (linked_names d' ?id) = set ?ts"
    by auto
  have dq: "distinct (quote_tags d')"
    using w by (simp add: wf_db_def)
  have "get_tags_for_quote d' ?id = sort ?ts"
    unfolding get_tags_for_quote_linked [OF dq]
    by (rule sort_eq_if_same_set [OF distinct_linked_names [OF w] assms(4) l])
  moreover have "filter (\<lambda>r. r_id r = ?id) (quotes d') \<noteq> []"
    using r by simp
  ultimately have "map_option q_tags (get_quote_by_id c d' ?id) = Some (sort ?ts)"
    by (auto simp: get_quote_by_id_def from_row_def split: list.splits)
  with a qi qt show ?thesis
    by auto
qed

lemma set_fields_id: "r_id (set_fields kw r) = r_id r"
  by (simp add: set_fields_def)

lemma update_quote_replaces_tags:
  assumes "wf_db d" and "quote_id \<in> set (map r_id (quotes d))"
    and "\<not> invalid_field (kw_text kw)" and "\<not> invalid_field (kw_author kw)"
    and "kw_tags kw = Some (Some ts)" and "distinct (surviving ts)"
    and "sqlite_int quote_id" and "bind_parameters (update_params kw) = None"
    and "list_all encodable (surviving ts)"
  shows "\<exists>d'. update_quote d quote_id kw = Inr (True, d') \<and> wf_db d' \<and>
              get_tags_for_quote d' quote_id = sort (surviving ts) \<and>
              (\<forall>q'. q' \<noteq> quote_id \<longrightarrow> get_tags_for_quote d' q' = get_tags_for_quote d q')"
proof -
  let ?d1 = "d\<lparr>quotes := map (\<lambda>r. if r_id r = quote_id then set_fields kw r else r) (quotes d)\<rparr>"
  let ?d2 = "?d1\<lparr>quote_tags := filter (\<lambda>qt. fst qt \<noteq> quote_id) (quote_tags ?d1)\<rparr>"
  have same_id: "r_id \<circ> (\<lambda>r. if r_id r = quote_id then set_fields kw r else r) = r_id"
    by (auto simp: fun_eq_iff set_fields_id)
  have ids: "map r_id (quotes ?d1) = map r_id (quotes d)"
    by (simp add: same_id)
  have e: "filter (\<lambda>r. r_id r = quote_id) (quotes d) \<noteq> []"
    using assms(2) by (auto simp: filter_empty_conv)
  have in_ids: "r_id ` set (quotes ?d1) = r_id ` set (quotes d)"
    using ids by (metis set_map)
  have wf2: "wf_db ?d2"
    using assms(1) in_ids unfolding wf_db_def
    by (auto simp: same_id set_fields_id split: if_splits)
  have q2: "quote_id \<in> set (map r_id (quotes ?d2))"
    using assms(2) ids by simp
  have l2: "linked_names ?d2 quote_id = []"
    by (simp add: linked_names_def)
  have o2: "linked_names ?d2 q' = linked_names d q'" if "q' \<noteq> quote_id" for q'
    using that by (simp add: linked_names_def)
  have disj: "set (surviving ts) \<inter> set (linked_names ?d2 quote_id) = {}"
    using l2 by simp
  have bound: "(if update_params kw = [] then None
                else bind_parameters (update_params kw @ [PInt quote_id])) = None"
    using assms(7,8) by (simp add: bind_parameters_append)
  have rng: "bind_parameters [PInt quote_id] = None"
    using assms(7) by simp
  from add_tags_ok [OF wf2 q2 assms(6) disj assms(9), of "[]"]
  obtain d' where r: "add_tags ?d2 quote_id ts [] = Inr (d', surviving ts)"
    and w: "wf_db d'"
    and lq: "set (linked_names d' quote_id) = set (linked_names ?d2 quote_id) \<union> set (surviving ts)"
    and lo: "\<forall>q'. q' \<noteq> quote_id \<longrightarrow> linked_names d' q' = linked_names ?d2 q'"
    by auto
  have u: "update_tags ?d2 quote_id ts = Inr d'"
    using update_tags_add_tags [of ?d2 quote_id ts "[]"] r by simp
  have res: "update_quote d quote_id kw = Inr (True, d')"
  proof (cases "ts = []")
    case True
    with u have "d' = ?d2" by simp
    with True show ?thesis
      unfolding update_quote_def Let_def rng bound using assms(3,4,5) e by simp
  next
    case False
    then show ?thesis
      unfolding update_quote_def Let_def rng bound using assms(3,4,5) e u by simp
  qed
  have dq: "distinct (quote_tags d')" and dq0: "distinct (quote_tags d)"
    using w assms(1) by (simp_all add: wf_db_def)
  have "set (linked_names d' quote_id) = set (surviving ts)"
    using lq l2 by simp
  then have g: "get_tags_for_quote d' quote_id = sort (surviving ts)"
    unfolding get_tags_for_quote_linked [OF dq]
    by (rule sort_eq_if_same_set [OF distinct_linked_names [OF w] assms(6)])
  have "get_tags_for_quote d' q' = get_tags_for_quote d q'" if "q' \<noteq> quote_id" for q'
    using that lo o2 by (simp add: get_tags_for_quote_linked [OF dq] get_tags_for_quote_linked [OF dq0])
  with res w g show ?thesis
    by blast
qed

lemma update_quote_keeps_tags:
  assumes "quote_id \<in> set (map r_id (quotes d))"
    and "\<not> invalid_field (kw_text kw)" and "\<not> invalid_field (kw_author kw)"
    and "kw_tags kw = None"
    and "sqlite_int quote_id" and "bind_parameters (update_params kw) = None"
  shows "\<exists>d'. update_quote d quote_id kw = Inr (True, d') \<and>
              quote_tags d' = quote_tags d \<and> tags d' = tags d \<and>
              (\<forall>q'. get_tags_for_quote d' q' = get_tags_for_quote d q')"
proof -
  have e: "filter (\<lambda>r. r_id r = quote_id) (quotes d) \<noteq> []"
    using assms(1) by (auto simp: filter_empty_conv)
  have bound: "(if update_params kw = [] then None
                else bind_parameters (update_params kw @ [PInt quote_id])) = None"
    using assms(5,6) by (simp add: bind_parameters_append)
  have rng: "bind_parameters [PInt quote_id] = None"
    using assms(5) by simp
  show ?thesis
    unfolding update_quote_def Let_def rng bound
    using assms(2,3,4) e by (simp add: get_tags_for_quote_def)
qed

subsection \<open>Tag lists with a repeated name\<close>

text \<open>
  The two failing calls shown above are not isolated: on every database that satisfies the
  constraints of the schema, and for values that can be bound, a tag list in which a name
  is kept twice makes \<^verbatim>\<open>add_quote\<close>, and \<^verbatim>\<open>update_quote\<close> on a quote that exists, end
  in the \<^verbatim>\<open>IntegrityError\<close> of the primary key of \<^verbatim>\<open>quote_tags\<close>.
\<close>

lemma add_tags_raises:
  assumes "wf_db d" and "q \<in> set (map r_id (quotes d))"
    and "\<not> distinct (surviving ns) \<or> set (surviving ns) \<inter> set (linked_names d q) \<noteq> {}"
    and "list_all encodable (surviving ns)"
  shows "add_tags d q ns acc
           = Inl (IntegrityError ''UNIQUE constraint failed: quote_tags.quote_id, quote_tags.tag_id'')"
  using assms
proof (induction ns arbitrary: d acc)
  case Nil
  then show ?case by (simp add: surviving_def)
next
  case (Cons n ns)
  show ?case
  proof (cases "blank n")
    case True
    with Cons.prems(3,4)
    have "\<not> distinct (surviving ns) \<or> set (surviving ns) \<inter> set (linked_names d q) \<noteq> {}"
      and "list_all encodable (surviving ns)"
      by (simp_all add: surviving_Cons)
    from Cons.IH [OF Cons.prems(1,2) this, of acc] True show ?thesis
      by simp
  next
    case False
    have surv: "surviving (n # ns) = strip n # surviving ns"
      using False by (simp add: surviving_Cons)
    have enc1: "encodable (strip n)" and enc: "list_all encodable (surviving ns)"
      using Cons.prems(4) surv by simp_all
    from get_or_create_tag_returns [OF enc1, of d]
    obtain tid d1 where g: "get_or_create_tag d (strip n) = Inr (tid, d1)"
      by blast
    show ?thesis
    proof (cases "strip n \<in> set (linked_names d q)")
      case True
      then obtain t where t: "t \<in> set (tags d)" and tn: "t_name t = strip n"
        and tl: "(q, t_id t) \<in> set (quote_tags d)"
        by (auto simp: linked_names_def)
      have "\<lparr>t_id = t_id t, t_name = strip n\<rparr> = t"
        using tn by simp
      with t have "\<lparr>t_id = t_id t, t_name = strip n\<rparr> \<in> set (tags d)"
        by simp
      from get_or_create_tag_existing [OF Cons.prems(1) this enc1] g
      have "tid = t_id t" and "d1 = d"
        by simp_all
      with tl have "(q, tid) \<in> set (quote_tags d1)"
        by simp
      then have "insert_quote_tag d1 q tid
                   = Inl (IntegrityError ''UNIQUE constraint failed: quote_tags.quote_id, quote_tags.tag_id'')"
        by (simp add: insert_quote_tag_def)
      then show ?thesis
        using False g by simp
    next
      case fresh: False
      let ?d2 = "d1\<lparr>quote_tags := quote_tags d1 @ [(q, tid)]\<rparr>"
      have wf1: "wf_db d1"
        by (rule get_or_create_tag_wf [OF Cons.prems(1) g])
      have q1: "q \<in> set (map r_id (quotes d1))"
        using Cons.prems(2) get_or_create_tag_frame(1) [OF g] by simp
      have t1: "\<lparr>t_id = tid, t_name = strip n\<rparr> \<in> set (tags d1)"
        by (rule get_or_create_tag_frame(4) [OF g])
      have u1: "(q, tid) \<notin> set (quote_tags d1)"
        by (rule get_or_create_tag_unlinked [OF Cons.prems(1) g fresh])
      note ins = insert_quote_tag_ok [OF wf1 q1 t1 u1]
      have l1: "linked_names d1 q = linked_names d q"
        by (rule get_or_create_tag_linked [OF Cons.prems(1) g])
      have q2: "q \<in> set (map r_id (quotes ?d2))"
        using q1 by simp
      have "\<not> distinct (surviving ns) \<or> set (surviving ns) \<inter> set (linked_names ?d2 q) \<noteq> {}"
        using Cons.prems(3) fresh surv ins(3) l1 by auto
      from Cons.IH [OF ins(2) q2 this enc, of "acc @ [strip n]"] show ?thesis
        using False g ins(1) by simp
    qed
  qed
qed

lemma add_quote_repeated_tag:
  assumes "wf_db d" and "\<not> blank text" and "\<not> blank author"
    and "\<not> distinct (surviving ts)"
    and "bindable text author source year ts"
  shows "add_quote c d text author source year (Some ts)
           = Inl (IntegrityError ''UNIQUE constraint failed: quote_tags.quote_id, quote_tags.tag_id'')"
proof -
  let ?id = "quotes_seq d + 1"
  let ?d1 = "d\<lparr>quotes := quotes d @
                [\<lparr>r_id = ?id, r_text = strip text, r_author = strip author,
                  r_source = source, r_year = year, r_created_at = current_timestamp c\<rparr>],
              quotes_seq := ?id\<rparr>"
  have new: "?id \<notin> set (map r_id (quotes d))"
    using assms(1) by (fastforce simp: wf_db_def)
  have wf1: "wf_db ?d1"
    using assms(1) new by (fastforce simp: wf_db_def)
  have q1: "?id \<in> set (map r_id (quotes ?d1))"
    by simp
  have ne: "ts \<noteq> []"
    using assms(4) by (auto simp: surviving_def)
  have enc: "list_all encodable (surviving ts)"
    using assms(5) by (simp add: bindable_def encodable_surviving)
  note bound = bindable_bind [OF assms(5)]
  have "add_tags ?d1 ?id ts []
          = Inl (IntegrityError ''UNIQUE constraint failed: quote_tags.quote_id, quote_tags.tag_id'')"
    using assms(4) enc by (intro add_tags_raises [OF wf1 q1]) simp_all
  then show ?thesis
    unfolding add_quote_def Let_def bound using assms(2,3) ne by simp
qed


lemma update_quote_repeated_tag:
  assumes "wf_db d" and "quote_id \<in> set (map r_id (quotes d))"
    and "\<not> invalid_field (kw_text kw)" and "\<not> invalid_field (kw_author kw)"
    and "kw_tags kw = Some (Some ts)" and "\<not> distinct (surviving ts)"
    and "sqlite_int quote_id" and "bind_parameters (update_params kw) = None"
    and "list_all encodable (surviving ts)"
  shows "update_quote d quote_id kw
           = Inl (IntegrityError ''UNIQUE constraint failed: quote_tags.quote_id, quote_tags.tag_id'')"
proof -
  let ?d1 = "d\<lparr>quotes := map (\<lambda>r. if r_id r = quote_id then set_fields kw r else r) (quotes d)\<rparr>"
  let ?d2 = "?d1\<lparr>quote_tags := filter (\<lambda>qt. fst qt \<noteq> quote_id) (quote_tags ?d1)\<rparr>"
  have same_id: "r_id \<circ> (\<lambda>r. if r_id r = quote_id then set_fields kw r else r) = r_id"
    by (auto simp: fun_eq_iff set_fields_id)
  have ids: "map r_id (quotes ?d1) = map r_id (quotes d)"
    by (simp add: same_id)
  have in_ids: "r_id ` set (quotes ?d1) = r_id ` set (quotes d)"
    using ids by (metis set_map)
  have e: "filter (\<lambda>r. r_id r = quote_id) (quotes d) \<noteq> []"
    using assms(2) by (auto simp: filter_empty_conv)
  have wf2: "wf_db ?d2"
    using assms(1) in_ids unfolding wf_db_def
    by (auto simp: same_id set_fields_id split: if_splits)
  have q2: "quote_id \<in> set (map r_id (quotes ?d2))"
    using assms(2) ids by simp
  have ne: "ts \<noteq> []"
    using assms(6) by (auto simp: surviving_def)
  have bound: "(if update_params kw = [] then None
                else bind_parameters (update_params kw @ [PInt quote_id])) = None"
    using assms(7,8) by (simp add: bind_parameters_append)
  have rng: "bind_parameters [PInt quote_id] = None"
    using assms(7) by simp
  have "add_tags ?d2 quote_id ts []
          = Inl (IntegrityError ''UNIQUE constraint failed: quote_tags.quote_id, quote_tags.tag_id'')"
    using assms(6,9) by (intro add_tags_raises [OF wf2 q2]) simp_all
  then have "update_tags ?d2 quote_id ts
          = Inl (IntegrityError ''UNIQUE constraint failed: quote_tags.quote_id, quote_tags.tag_id'')"
    using update_tags_add_tags [of ?d2 quote_id ts "[]"] by simp
  then show ?thesis
    unfolding update_quote_def Let_def rng bound using assms(3,4,5) e ne by simp
qed

subsection \<open>\<^verbatim>\<open>search_quotes\<close> by tags, on every database\<close>

text \<open>
  With the tags filter alone, the quotes returned are those for which the number of
  listed names they carry equals \<^verbatim>\<open>len(tags)\<close>. For a list without a repeated name
  these are the quotes that carry every name listed (AND semantics); for a list with a
  repeated name there are none, whatever the database holds.
\<close>

lemma group_having_ids:
  "r_id ` set (group_having n matched)
     = {k \<in> (\<lambda>(q, t). r_id q) ` set matched.
          length (remdups (map (\<lambda>(q, t). t_id t) (filter (\<lambda>(q, t). r_id q = k) matched))) = n}"
  (is "?L = ?R")
proof (intro set_eqI iffI)
  fix k
  assume "k \<in> ?L"
  then obtain q where q: "q \<in> set (group_having n matched)" and k: "k = r_id q"
    by auto
  from q obtain k' where k': "k' \<in> (\<lambda>(q, t). r_id q) ` set matched"
    and n: "length (remdups (map (\<lambda>(q, t). t_id t)
              (filter (\<lambda>(q, t). r_id q = k') matched))) = n"
    and h: "q \<in> set (case filter (\<lambda>(q, t). r_id q = k') matched of
                       [] \<Rightarrow> [] | (q, t) # _ \<Rightarrow> [q])"
    by (auto simp: group_having_def)
  from h obtain t rest where g: "filter (\<lambda>(q, t). r_id q = k') matched = (q, t) # rest"
    by (cases "filter (\<lambda>(q, t). r_id q = k') matched") auto
  then have "(q, t) \<in> set (filter (\<lambda>(q, t). r_id q = k') matched)"
    by simp
  then have "r_id q = k'"
    by simp
  with k k' n show "k \<in> ?R"
    by simp
next
  fix k
  assume "k \<in> ?R"
  then have k: "k \<in> (\<lambda>(q, t). r_id q) ` set matched"
    and n: "length (remdups (map (\<lambda>(q, t). t_id t)
              (filter (\<lambda>(q, t). r_id q = k) matched))) = n"
    by simp_all
  from k have "filter (\<lambda>(q, t). r_id q = k) matched \<noteq> []"
    by (auto simp: filter_empty_conv)
  then obtain q t rest where g: "filter (\<lambda>(q, t). r_id q = k) matched = (q, t) # rest"
    by (cases "filter (\<lambda>(q, t). r_id q = k) matched") auto
  then have "(q, t) \<in> set (filter (\<lambda>(q, t). r_id q = k) matched)"
    by simp
  then have qk: "r_id q = k"
    by simp
  let ?G = "\<lambda>k. filter (\<lambda>(q, t). r_id q = k) matched"
  let ?keys = "remdups (map (\<lambda>(q, t). r_id q) matched)"
  have "k \<in> set ?keys"
    using k by simp
  then have "?G k \<in> ?G ` set ?keys"
    by (rule imageI)
  with n have kept: "?G k \<in> set (filter (\<lambda>g. length (remdups (map (\<lambda>(q, t). t_id t) g)) = n)
                                  (map ?G ?keys))"
    unfolding set_filter set_map by (intro CollectI conjI)
  have "q \<in> set (case ?G k of [] \<Rightarrow> [] | (q, t) # _ \<Rightarrow> [q])"
    using g by simp
  with kept have "q \<in> set (group_having n matched)"
    unfolding group_having_def set_concat set_map by blast
  with qk show "k \<in> ?L"
    by auto
qed

lemma set_quotes_join_tags:
  "set (quotes_join_tags d)
     = {(q, t). q \<in> set (quotes d) \<and> t \<in> set (tags d) \<and> (r_id q, t_id t) \<in> set (quote_tags d)}"
  by (auto simp: quotes_join_tags_def) force


lemma matched_tag_count:
  assumes "wf_db d" and "k \<in> set (map r_id (quotes d))"
  shows "length (remdups (map (\<lambda>(q, t). t_id t)
           (filter (\<lambda>(q, t). r_id q = k)
              (filter (\<lambda>(q, t). t_name t \<in> set ts \<and> text_ok None q \<and> author_ok None q)
                 (quotes_join_tags d)))))
         = card (set (linked_names d k) \<inter> set ts)"
proof -
  let ?A = "{t \<in> set (tags d). (k, t_id t) \<in> set (quote_tags d) \<and> t_name t \<in> set ts}"
  from assms(2) obtain q0 where q0: "q0 \<in> set (quotes d)" and k0: "r_id q0 = k"
    by auto
  have "set (map (\<lambda>(q, t). t_id t)
           (filter (\<lambda>(q, t). r_id q = k)
              (filter (\<lambda>(q, t). t_name t \<in> set ts \<and> text_ok None q \<and> author_ok None q)
                 (quotes_join_tags d)))) = t_id ` ?A"
  proof (intro set_eqI iffI)
    fix x
    assume "x \<in> set (map (\<lambda>(q, t). t_id t)
           (filter (\<lambda>(q, t). r_id q = k)
              (filter (\<lambda>(q, t). t_name t \<in> set ts \<and> text_ok None q \<and> author_ok None q)
                 (quotes_join_tags d))))"
    then obtain q t where "(q, t) \<in> set (quotes_join_tags d)" and "r_id q = k"
      and "t_name t \<in> set ts" and "x = t_id t"
      by auto
    then have "t \<in> ?A"
      by (simp add: set_quotes_join_tags)
    with \<open>x = t_id t\<close> show "x \<in> t_id ` ?A"
      by blast
  next
    fix x
    assume "x \<in> t_id ` ?A"
    then obtain t where t: "t \<in> ?A" and x: "x = t_id t"
      by blast
    then have "(q0, t) \<in> set (quotes_join_tags d)"
      using q0 k0 by (simp add: set_quotes_join_tags)
    then have "(q0, t) \<in> set (filter (\<lambda>(q, t). r_id q = k)
              (filter (\<lambda>(q, t). t_name t \<in> set ts \<and> text_ok None q \<and> author_ok None q)
                 (quotes_join_tags d)))"
      using t k0 by (simp add: text_ok_def author_ok_def)
    then have "(\<lambda>(q, t). t_id t) (q0, t) \<in> (\<lambda>(q, t). t_id t) ` set (filter (\<lambda>(q, t). r_id q = k)
              (filter (\<lambda>(q, t). t_name t \<in> set ts \<and> text_ok None q \<and> author_ok None q)
                 (quotes_join_tags d)))"
      by (rule imageI)
    with x show "x \<in> set (map (\<lambda>(q, t). t_id t)
           (filter (\<lambda>(q, t). r_id q = k)
              (filter (\<lambda>(q, t). t_name t \<in> set ts \<and> text_ok None q \<and> author_ok None q)
                 (quotes_join_tags d))))"
      by simp
  qed
  then have "length (remdups (map (\<lambda>(q, t). t_id t)
           (filter (\<lambda>(q, t). r_id q = k)
              (filter (\<lambda>(q, t). t_name t \<in> set ts \<and> text_ok None q \<and> author_ok None q)
                 (quotes_join_tags d))))) = card (t_id ` ?A)"
    by (simp only: length_remdups_card_conv)
  also have "card (t_id ` ?A) = card ?A"
  proof (rule card_image)
    have "inj_on t_id (set (tags d))"
      using assms(1) by (simp add: wf_db_def distinct_map)
    then show "inj_on t_id ?A"
      by (rule inj_on_subset) auto
  qed
  also have "card ?A = card (t_name ` ?A)"
  proof (rule card_image [symmetric])
    have "inj_on t_name (set (tags d))"
      using assms(1) by (simp add: wf_db_def distinct_map)
    then show "inj_on t_name ?A"
      by (rule inj_on_subset) auto
  qed
  also have "t_name ` ?A = set (linked_names d k) \<inter> set ts"
    by (auto simp: linked_names_def)
  finally show ?thesis .
qed

lemma search_quotes_tags_ids:
  assumes "wf_db d" and "ts \<noteq> []"
  shows "set (map q_id (search_quotes c d None None (Some ts)))
           = {k \<in> set (map r_id (quotes d)).
                card (set (linked_names d k) \<inter> set ts) = length ts}"
proof -
  let ?M = "filter (\<lambda>(q, t). t_name t \<in> set ts \<and> text_ok None q \<and> author_ok None q)
              (quotes_join_tags d)"
  have "map q_id (search_quotes c d None None (Some ts))
          = map r_id (order_by_created_at_desc (remdups (group_having (length ts) ?M)))"
    using assms(2) by (simp add: search_quotes_def from_row_def comp_def)
  then have "set (map q_id (search_quotes c d None None (Some ts)))
               = r_id ` set (group_having (length ts) ?M)"
    by (simp add: order_by_created_at_desc_def)
  also have "\<dots> = {k \<in> set (map r_id (quotes d)).
                     card (set (linked_names d k) \<inter> set ts) = length ts}"
  proof (intro set_eqI iffI)
    fix k
    assume "k \<in> r_id ` set (group_having (length ts) ?M)"
    then have im: "k \<in> (\<lambda>(q, t). r_id q) ` set ?M"
      and n: "length (remdups (map (\<lambda>(q, t). t_id t) (filter (\<lambda>(q, t). r_id q = k) ?M)))
                = length ts"
      unfolding group_having_ids by simp_all
    from im have kin: "k \<in> set (map r_id (quotes d))"
      by (auto simp: set_quotes_join_tags)
    from n show "k \<in> {k \<in> set (map r_id (quotes d)).
                       card (set (linked_names d k) \<inter> set ts) = length ts}"
      unfolding matched_tag_count [OF assms(1) kin] using kin by simp
  next
    fix k
    assume "k \<in> {k \<in> set (map r_id (quotes d)).
                   card (set (linked_names d k) \<inter> set ts) = length ts}"
    then have kin: "k \<in> set (map r_id (quotes d))"
      and c: "card (set (linked_names d k) \<inter> set ts) = length ts"
      by simp_all
    from kin obtain q0 where q0: "q0 \<in> set (quotes d)" and k0: "r_id q0 = k"
      by auto
    have "card (set (linked_names d k) \<inter> set ts) \<noteq> 0"
      using c assms(2) by simp
    then have "set (linked_names d k) \<inter> set ts \<noteq> {}"
      by auto
    then obtain t where t: "t \<in> set (tags d)" and tl: "(k, t_id t) \<in> set (quote_tags d)"
      and tn: "t_name t \<in> set ts"
      by (auto simp: linked_names_def)
    have "(q0, t) \<in> set ?M"
      using q0 k0 t tl tn by (simp add: set_quotes_join_tags text_ok_def author_ok_def)
    then have "(\<lambda>(q, t). r_id q) (q0, t) \<in> (\<lambda>(q, t). r_id q) ` set ?M"
      by (rule imageI)
    then have im: "k \<in> (\<lambda>(q, t). r_id q) ` set ?M"
      using k0 by simp
    have n: "length (remdups (map (\<lambda>(q, t). t_id t) (filter (\<lambda>(q, t). r_id q = k) ?M)))
                = length ts"
      unfolding matched_tag_count [OF assms(1) kin] by (rule c)
    show "k \<in> r_id ` set (group_having (length ts) ?M)"
      unfolding group_having_ids using im n by (intro CollectI conjI)
  qed
  finally show ?thesis .
qed


lemma search_quotes_distinct_tags:
  assumes "wf_db d" and "ts \<noteq> []" and "distinct ts"
  shows "set (map q_id (search_quotes c d None None (Some ts)))
           = {k \<in> set (map r_id (quotes d)). set ts \<subseteq> set (get_tags_for_quote d k)}"
proof -
  have dq: "distinct (quote_tags d)"
    using assms(1) by (simp add: wf_db_def)
  have "card (set (linked_names d k) \<inter> set ts) = length ts
          \<longleftrightarrow> set ts \<subseteq> set (get_tags_for_quote d k)" for k
  proof
    assume "card (set (linked_names d k) \<inter> set ts) = length ts"
    then have "card (set (linked_names d k) \<inter> set ts) = card (set ts)"
      using assms(3) by (simp add: distinct_card)
    then have "set (linked_names d k) \<inter> set ts = set ts"
      by (intro card_subset_eq) auto
    then show "set ts \<subseteq> set (get_tags_for_quote d k)"
      by (auto simp: get_tags_for_quote_linked [OF dq])
  next
    assume "set ts \<subseteq> set (get_tags_for_quote d k)"
    then have "set (linked_names d k) \<inter> set ts = set ts"
      by (auto simp: get_tags_for_quote_linked [OF dq])
    then show "card (set (linked_names d k) \<inter> set ts) = length ts"
      using assms(3) by (simp add: distinct_card)
  qed
  then show ?thesis
    unfolding search_quotes_tags_ids [OF assms(1,2)] by simp
qed

lemma search_quotes_repeated_tag:
  assumes "wf_db d" and "\<not> distinct ts"
  shows "search_quotes c d None None (Some ts) = []"
proof -
  have ne: "ts \<noteq> []"
    using assms(2) by auto
  have "card (set ts) < length ts"
    using assms(2) card_length [of ts] distinct_card [of ts] card_distinct [of ts]
    by (cases "card (set ts) = length ts") auto
  moreover have "card (set (linked_names d k) \<inter> set ts) \<le> card (set ts)" for k
    by (intro card_mono) auto
  ultimately have "card (set (linked_names d k) \<inter> set ts) \<noteq> length ts" for k
    by (metis not_less)
  then have "set (map q_id (search_quotes c d None None (Some ts))) = {}"
    unfolding search_quotes_tags_ids [OF assms(1) ne] by simp
  then show ?thesis
    by simp
qed

subsection \<open>The constraints hold in every state the operations reach\<close>

text \<open>
  The fresh database satisfies \<open>wf_db\<close>, and every operation that writes keeps it: the
  hypothesis \<open>wf_db d\<close> of the results above holds for every database built by calls
  of these functions.
\<close>

lemma empty_db_wf: "wf_db empty_db"
  by (simp add: wf_db_def empty_db_def)

lemma insert_quote_tag_wf:
  assumes "wf_db d" and "insert_quote_tag d q t = Inr d'"
  shows "wf_db d'"
  using assms by (fastforce simp: insert_quote_tag_def wf_db_def split: if_splits)

lemma add_tags_wf:
  assumes "wf_db d" and "add_tags d q ns acc = Inr (d', names)"
  shows "wf_db d'"
  using assms
proof (induction ns arbitrary: d acc)
  case Nil
  then show ?case by simp
next
  case (Cons n ns)
  show ?case
  proof (cases "blank n")
    case True
    with Cons.prems(2) have "add_tags d q ns acc = Inr (d', names)"
      by simp
    from Cons.IH [OF Cons.prems(1) this] show ?thesis .
  next
    case False
    with Cons.prems(2) obtain tid d1 d2 where g: "get_or_create_tag d (strip n) = Inr (tid, d1)"
      and i: "insert_quote_tag d1 q tid = Inr d2"
      and r: "add_tags d2 q ns (acc @ [strip n]) = Inr (d', names)"
      by (auto split: sum.splits)
    have "wf_db d1"
      by (rule get_or_create_tag_wf [OF Cons.prems(1) g])
    then have "wf_db d2"
      using i by (rule insert_quote_tag_wf)
    from Cons.IH [OF this r] show ?thesis .
  qed
qed

lemma update_tags_wf:
  assumes "wf_db d" and "update_tags d q ns = Inr d'"
  shows "wf_db d'"
proof -
  from assms(2) update_tags_add_tags [of d q ns "[]"]
  obtain names where "add_tags d q ns [] = Inr (d', names)"
    by (auto split: sum.splits)
  from add_tags_wf [OF assms(1) this] show ?thesis .
qed

lemma add_quote_wf:
  assumes "wf_db d" and "add_quote c d text author source year tgs = Inr (q, d')"
  shows "wf_db d'"
proof -
  let ?id = "quotes_seq d + 1"
  let ?d1 = "d\<lparr>quotes := quotes d @
                [\<lparr>r_id = ?id, r_text = strip text, r_author = strip author,
                  r_source = source, r_year = year, r_created_at = current_timestamp c\<rparr>],
              quotes_seq := ?id\<rparr>"
  have new: "?id \<notin> set (map r_id (quotes d))"
    using assms(1) by (fastforce simp: wf_db_def)
  have wf1: "wf_db ?d1"
    using assms(1) new by (fastforce simp: wf_db_def)
  from assms(2) obtain names where
    "(case tgs of None \<Rightarrow> Inr (?d1, [])
      | Some ts \<Rightarrow> if ts = [] then Inr (?d1, []) else add_tags ?d1 ?id ts []) = Inr (d', names)"
    by (auto simp: add_quote_def Let_def split: if_splits option.splits sum.splits list.splits)
  then have "d' = ?d1 \<or> (\<exists>ts. add_tags ?d1 ?id ts [] = Inr (d', names))"
    by (auto split: option.splits if_splits)
  then show ?thesis
    using wf1 add_tags_wf [OF wf1] by auto
qed

lemma delete_quote_wf:
  assumes "wf_db d" and "delete_quote d quote_id = Inr (b, d')"
  shows "wf_db d'"
proof (cases "filter (\<lambda>r. r_id r = quote_id) (quotes d) = []")
  case True
  with assms show ?thesis
    by (auto simp: delete_quote_def split: if_splits)
next
  case False
  then have "d' = d\<lparr>quotes := filter (\<lambda>r. r_id r \<noteq> quote_id) (quotes d),
                     quote_tags := filter (\<lambda>qt. fst qt \<noteq> quote_id) (quote_tags d)\<rparr>"
    using assms(2) by (auto simp: delete_quote_def split: if_splits)
  then show ?thesis
    using assms(1) by (auto simp: wf_db_def distinct_map_filter)
qed

lemma add_tag_to_quote_wf:
  assumes "wf_db d" and "add_tag_to_quote d quote_id tag = Inr (b, d')"
  shows "wf_db d'"
proof (cases "get_or_create_tag d (strip tag)")
  case (Inl e)
  with assms(2) have "d' = d"
    by (auto simp: add_tag_to_quote_def split: if_splits)
  with assms(1) show ?thesis by simp
next
  case (Inr res)
  obtain tid d1 where g: "get_or_create_tag d (strip tag) = Inr (tid, d1)"
    using Inr by (cases res) simp
  have wf1: "wf_db d1"
    by (rule get_or_create_tag_wf [OF assms(1) g])
  from assms(2) g have "d' = d \<or> d' = d1 \<or> insert_quote_tag d1 quote_id tid = Inr d'"
    by (auto simp: add_tag_to_quote_def split: if_splits sum.splits)
  then show ?thesis
    using assms(1) wf1 insert_quote_tag_wf [OF wf1] by blast
qed

lemma update_quote_wf:
  assumes "wf_db d" and "update_quote d quote_id kw = Inr (b, d')"
  shows "wf_db d'"
proof (cases "filter (\<lambda>r. r_id r = quote_id) (quotes d) = []")
  case True
  with assms show ?thesis
    by (auto simp: update_quote_def split: if_splits)
next
  case False
  have v: "\<not> invalid_field (kw_text kw)" "\<not> invalid_field (kw_author kw)"
    using assms(2) by (auto simp: update_quote_def split: if_splits)
  let ?d1 = "d\<lparr>quotes := map (\<lambda>r. if r_id r = quote_id then set_fields kw r else r) (quotes d)\<rparr>"
  let ?d2 = "?d1\<lparr>quote_tags := filter (\<lambda>qt. fst qt \<noteq> quote_id) (quote_tags ?d1)\<rparr>"
  have same_id: "r_id \<circ> (\<lambda>r. if r_id r = quote_id then set_fields kw r else r) = r_id"
    by (auto simp: fun_eq_iff set_fields_id)
  have "map r_id (quotes ?d1) = map r_id (quotes d)"
    by (simp add: same_id)
  then have in_ids: "r_id ` set (quotes ?d1) = r_id ` set (quotes d)"
    by (metis set_map)
  have wf1: "wf_db ?d1"
    using assms(1) in_ids unfolding wf_db_def
    by (auto simp: same_id set_fields_id split: if_splits)
  have wf2: "wf_db ?d2"
    using assms(1) in_ids unfolding wf_db_def
    by (auto simp: same_id set_fields_id split: if_splits)
  have rng: "bind_parameters [PInt quote_id] = None"
    using assms(2) v by (auto simp: update_quote_def split: if_splits)
  have bound: "(if update_params kw = [] then None
                else bind_parameters (update_params kw @ [PInt quote_id])) = None"
    using assms(2) v False rng
    by (cases "if update_params kw = [] then None
               else bind_parameters (update_params kw @ [PInt quote_id])")
       (simp_all add: update_quote_def)
  from assms(2) have
    "d' = ?d1 \<or> d' = ?d2 \<or> (\<exists>ts. update_tags ?d2 quote_id ts = Inr d')"
    unfolding update_quote_def Let_def rng bound using v False
    by (auto split: option.splits if_splits sum.splits)
  then show ?thesis
    using wf1 wf2 update_tags_wf [OF wf2] by auto
qed

end
